theory Spec2Isabelle
  imports Complex_Main "HOL-Library.AList" "HOL-Library.Monad_Syntax"
begin

section \<open>JavaScript values and the object store\<close>

text \<open>
  The functions of \<^verbatim>\<open>src/utils/schema.js\<close> work on documents obtained from
  \<^verbatim>\<open>JSON.parse\<close>. A value is a primitive or a reference to a cell of the store;
  a cell is an object (its own properties, in insertion order) or an array (its elements,
  and its own named properties). Strict equality \<^verbatim>\<open>===\<close> and the key comparison of
  \<^verbatim>\<open>Map\<close> and \<^verbatim>\<open>Set\<close> are HOL equality on \<open>val\<close>: primitives by value, references
  by address. A number carries the rational value of the parsed double (the infinities that
  an overlong literal parses to are not modelled); the code only asks whether a number is
  zero and whether two numbers are equal.

  The only exception the code can raise is a \<^verbatim>\<open>TypeError\<close> (a property read on
  \<^verbatim>\<open>null\<close> or \<^verbatim>\<open>undefined\<close>, a call of something that is not a function);
  a computation that throws has the result \<open>None\<close>.
\<close>

datatype val = Undefined | Null | Bool bool | Num rat | Str string | Ref nat

datatype cell = Obj "(string \<times> val) list" | Arr "val list" "(string \<times> val) list"

type_synonym heap = "cell list"

fun truthy :: "val \<Rightarrow> bool" where
  "truthy Undefined = False"
| "truthy Null = False"
| "truthy (Bool b) = b"
| "truthy (Num r) = (r \<noteq> 0)"
| "truthy (Str s) = (s \<noteq> [])"
| "truthy (Ref a) = True"

fun props :: "cell \<Rightarrow> (string \<times> val) list" where
  "props (Obj ps) = ps"
| "props (Arr xs ps) = ps"

definition ownProp :: "(string \<times> val) list \<Rightarrow> string \<Rightarrow> val" where
  "ownProp ps k = (case map_of ps k of None \<Rightarrow> Undefined | Some v \<Rightarrow> v)"

text \<open>
  \<open>getProp h v k\<close> is the read \<^verbatim>\<open>v.k\<close> for the property names that schema.js reads;
  none of them is a built-in property of a string, number, boolean or array, so on a
  primitive the read gives \<^verbatim>\<open>undefined\<close>. An address outside the store does not
  arise from \<^verbatim>\<open>JSON.parse\<close>; it reads as an object without properties.
\<close>

fun getProp :: "heap \<Rightarrow> val \<Rightarrow> string \<Rightarrow> val option" where
  "getProp h Undefined k = None"
| "getProp h Null k = None"
| "getProp h (Ref a) k = Some (if a < length h then ownProp (props (h ! a)) k else Undefined)"
| "getProp h v k = Some Undefined"

text \<open>\<^verbatim>\<open>Array.isArray(v)\<close>.\<close>

fun isArray :: "heap \<Rightarrow> val \<Rightarrow> bool" where
  "isArray h (Ref a) = (a < length h \<and> (case h ! a of Arr xs ps \<Rightarrow> True | Obj ps \<Rightarrow> False))"
| "isArray h v = False"

text \<open>
  The elements of \<open>v\<close> when an array method (\<^verbatim>\<open>map\<close>, \<^verbatim>\<open>forEach\<close>, \<^verbatim>\<open>push\<close>) is
  called on it: the method exists on arrays only, and calling \<^verbatim>\<open>undefined\<close> (or a
  JSON value stored under that name) throws.
\<close>

fun elements :: "heap \<Rightarrow> val \<Rightarrow> val list option" where
  "elements h (Ref a) =
     (if a < length h then (case h ! a of Arr xs ps \<Rightarrow> Some xs | Obj ps \<Rightarrow> None) else None)"
| "elements h v = None"

text \<open>
  The assignment \<^verbatim>\<open>v.k = x\<close>. The module is not in strict mode, so an assignment to a
  property of a primitive is dropped silently.
\<close>

fun setField :: "string \<Rightarrow> val \<Rightarrow> cell \<Rightarrow> cell" where
  "setField k x (Obj ps) = Obj (AList.update k x ps)"
| "setField k x (Arr xs ps) = Arr xs (AList.update k x ps)"

fun setProp :: "heap \<Rightarrow> val \<Rightarrow> string \<Rightarrow> val \<Rightarrow> heap option" where
  "setProp h Undefined k x = None"
| "setProp h Null k x = None"
| "setProp h (Ref a) k x = Some (if a < length h then h[a := setField k x (h ! a)] else h)"
| "setProp h v k x = Some h"

text \<open>A literal \<^verbatim>\<open>{...}\<close> or \<^verbatim>\<open>[...]\<close> takes the next free address.\<close>

definition alloc :: "heap \<Rightarrow> cell \<Rightarrow> heap \<times> val" where
  "alloc h c = (h @ [c], Ref (length h))"

text \<open>\<^verbatim>\<open>arr.push(x)\<close>.\<close>

fun push :: "heap \<Rightarrow> val \<Rightarrow> val \<Rightarrow> heap option" where
  "push h (Ref a) x =
     (if a < length h
      then (case h ! a of Arr xs ps \<Rightarrow> Some (h[a := Arr (xs @ [x]) ps]) | Obj ps \<Rightarrow> None)
      else None)"
| "push h v x = None"

text \<open>The decimal digits of an array index, as a template literal prints it.\<close>

fun showNat :: "nat \<Rightarrow> string" where
  "showNat n =
     (if n < 10 then [char_of (48 + n)] else showNat (n div 10) @ [char_of (48 + n mod 10)])"

declare showNat.simps [simp del]

section \<open>validateSetup\<close>

definition SCHEMA_VERSION :: string where
  "SCHEMA_VERSION = ''2.0''"

record validation =
  valid :: bool
  errors :: "string list"

text \<open>
  The array \<^verbatim>\<open>errors\<close> is local to the call and holds strings only; it is kept as a
  list that every block receives and returns extended. Lines 16--20: the legacy backfill
  (the warning goes to the console and is not part of the result).
\<close>

definition backfillVersion :: "heap \<Rightarrow> val \<Rightarrow> heap option" where
  "backfillVersion h setup = do {
     version \<leftarrow> getProp h setup ''version'';
     if \<not> truthy version then setProp h setup ''version'' (Str ''1.0'') else Some h
   }"

text \<open>Lines 23--35.\<close>

definition validateSystem :: "heap \<Rightarrow> val \<Rightarrow> string list \<Rightarrow> string list option" where
  "validateSystem h setup errs = do {
     system \<leftarrow> getProp h setup ''system'';
     if \<not> truthy system then Some (errs @ [''Missing required field: system''])
     else do {
       hostname \<leftarrow> getProp h system ''hostname'';
       let errs = (if \<not> truthy hostname
                   then errs @ [''Missing required field: system.hostname''] else errs);
       macosVersion \<leftarrow> getProp h system ''macosVersion'';
       let errs = (if \<not> truthy macosVersion
                     then errs @ [''Missing required field: system.macosVersion''] else errs);
       captureDate \<leftarrow> getProp h system ''captureDate'';
       Some (if \<not> truthy captureDate
             then errs @ [''Missing required field: system.captureDate''] else errs)
     }
   }"

text \<open>
  The two \<^verbatim>\<open>forEach\<close> loops of lines 53--57 and 61--65 differ in the word of the
  message only, the template literal \<open>missingName\<close>: \<open>kind\<close> is \<open>''cask''\<close> or
  \<open>''formula''\<close>. The read \<^verbatim>\<open>cask.name\<close> throws on a \<^verbatim>\<open>null\<close> entry.
\<close>

definition missingName :: "string \<Rightarrow> nat \<Rightarrow> string" where
  "missingName kind idx =
     ''Invalid '' @ kind @ '' at index '' @ showNat idx @ '': missing 'name' field''"

fun checkNames :: "heap \<Rightarrow> string \<Rightarrow> val list \<Rightarrow> nat \<Rightarrow> string list \<Rightarrow> string list option" where
  "checkNames h kind [] idx errs = Some errs"
| "checkNames h kind (entry # rest) idx errs = do {
     name \<leftarrow> getProp h entry ''name'';
     checkNames h kind rest (Suc idx)
       (if \<not> truthy name then errs @ [missingName kind idx] else errs)
   }"

definition checkEntries :: "heap \<Rightarrow> string \<Rightarrow> val \<Rightarrow> string list \<Rightarrow> string list option" where
  "checkEntries h kind arr errs =
     (if isArray h arr
      then do { entries \<leftarrow> elements h arr; checkNames h kind entries 0 errs }
      else Some errs)"

text \<open>Lines 38--67.\<close>

definition validateHomebrew :: "heap \<Rightarrow> val \<Rightarrow> string list \<Rightarrow> string list option" where
  "validateHomebrew h setup errs = do {
     homebrew \<leftarrow> getProp h setup ''homebrew'';
     if \<not> truthy homebrew then Some (errs @ [''Missing required field: homebrew''])
     else do {
       taps \<leftarrow> getProp h homebrew ''taps'';
       let errs = (if \<not> isArray h taps
                     then errs @ [''Invalid field: homebrew.taps must be an array''] else errs);
       casks \<leftarrow> getProp h homebrew ''casks'';
       let errs = (if \<not> isArray h casks
                     then errs @ [''Invalid field: homebrew.casks must be an array''] else errs);
       formulae \<leftarrow> getProp h homebrew ''formulae'';
       let errs = (if \<not> isArray h formulae
                     then errs @ [''Invalid field: homebrew.formulae must be an array'']
                     else errs);
       errs \<leftarrow> checkEntries h ''cask'' casks errs;
       checkEntries h ''formula'' formulae errs
     }
   }"

text \<open>
  Lines 70--72, 85--87 and 100--102: an optional top-level field that must be an array
  when it is there (\<open>field\<close> is \<open>''applications''\<close>, \<open>''shellConfigs''\<close> or
  \<open>''githubRepos''\<close>).
\<close>

definition validateArrayField :: "heap \<Rightarrow> val \<Rightarrow> string \<Rightarrow> string list \<Rightarrow> string list option" where
  "validateArrayField h setup field errs = do {
     v \<leftarrow> getProp h setup field;
     Some (if truthy v \<and> \<not> isArray h v
           then errs @ [''Invalid field: '' @ field @ '' must be an array''] else errs)
   }"

text \<open>Lines 75--82.\<close>

fun checkManagers :: "heap \<Rightarrow> val \<Rightarrow> string list \<Rightarrow> string list \<Rightarrow> string list option" where
  "checkManagers h globalPackages [] errs = Some errs"
| "checkManagers h globalPackages (manager # rest) errs = do {
     v \<leftarrow> getProp h globalPackages manager;
     checkManagers h globalPackages rest
       (if truthy v \<and> \<not> isArray h v
        then errs @ [''Invalid field: globalPackages.'' @ manager @ '' must be an array'']
        else errs)
   }"

definition validateGlobalPackages :: "heap \<Rightarrow> val \<Rightarrow> string list \<Rightarrow> string list option" where
  "validateGlobalPackages h setup errs = do {
     globalPackages \<leftarrow> getProp h setup ''globalPackages'';
     if truthy globalPackages
     then checkManagers h globalPackages [''npm'', ''bun'', ''dart'', ''ruby''] errs
     else Some errs
   }"

text \<open>
  Lines 90--97. \<^verbatim>\<open>typeof v !== 'object'\<close> on a truthy value: a reference (object or
  array) has type \<^verbatim>\<open>'object'\<close>, a truthy primitive has not.
\<close>

fun isObjectType :: "val \<Rightarrow> bool" where
  "isObjectType (Ref a) = True"
| "isObjectType Null = True"
| "isObjectType v = False"

definition validateGitConfig :: "heap \<Rightarrow> val \<Rightarrow> string list \<Rightarrow> string list option" where
  "validateGitConfig h setup errs = do {
     gitConfig \<leftarrow> getProp h setup ''gitConfig'';
     if truthy gitConfig then do {
       user \<leftarrow> getProp h gitConfig ''user'';
       let errs = (if truthy user \<and> \<not> isObjectType user
                     then errs @ [''Invalid field: gitConfig.user must be an object'']
                     else errs);
       settings \<leftarrow> getProp h gitConfig ''settings'';
       Some (if truthy settings \<and> \<not> isArray h settings
             then errs @ [''Invalid field: gitConfig.settings must be an array'']
             else errs)
     }
     else Some errs
   }"

text \<open>The checks of lines 23--102, in order, on the store left by the backfill.\<close>

definition runChecks :: "heap \<Rightarrow> val \<Rightarrow> string list option" where
  "runChecks h setup = do {
     errs \<leftarrow> validateSystem h setup [];
     errs \<leftarrow> validateHomebrew h setup errs;
     errs \<leftarrow> validateArrayField h setup ''applications'' errs;
     errs \<leftarrow> validateGlobalPackages h setup errs;
     errs \<leftarrow> validateArrayField h setup ''shellConfigs'' errs;
     errs \<leftarrow> validateGitConfig h setup errs;
     validateArrayField h setup ''githubRepos'' errs
   }"

text \<open>
  \<open>validateSetup h setup\<close> returns the store after the call together with the result:
  \<open>None\<close> when the call throws, the object \<^verbatim>\<open>{valid, errs}\<close> otherwise. A throw
  in the checks comes after the backfill, which stays in the store.
\<close>

definition validateSetup :: "heap \<Rightarrow> val \<Rightarrow> heap \<times> validation option" where
  "validateSetup h setup =
     (case backfillVersion h setup of
        None \<Rightarrow> (h, None)
      | Some h' \<Rightarrow>
          (h', map_option (\<lambda>errs. \<lparr>valid = (length errs = 0), errors = errs\<rparr>)
                 (runChecks h' setup)))"

section \<open>createEmptySetup\<close>

text \<open>
  The object literal of lines 115--154, allocated at address \<open>n\<close> in creation order (an
  object before the values of its properties). \<open>now\<close> is the string that
  \<^verbatim>\<open>new Date().toISOString()\<close> returns at the instant of the call.
\<close>

definition emptySetupCells :: "nat \<Rightarrow> string \<Rightarrow> cell list" where
  "emptySetupCells n now =
    [Obj [(''version'', Str SCHEMA_VERSION), (''system'', Ref (n + 1)),
          (''applications'', Ref (n + 2)), (''homebrew'', Ref (n + 3)),
          (''binaries'', Ref (n + 7)), (''homeBin'', Ref (n + 8)),
          (''githubRepos'', Ref (n + 9)), (''globalPackages'', Ref (n + 10)),
          (''shellConfigs'', Ref (n + 15)), (''gitConfig'', Ref (n + 16)),
          (''versionManagers'', Ref (n + 19)), (''menubarConfig'', Ref (n + 26))],
     Obj [(''hostname'', Str ''unknown''), (''macosVersion'', Str ''unknown''),
          (''architecture'', Str ''unknown''), (''homebrewVersion'', Str ''unknown''),
          (''captureDate'', Str now)],
     Arr [] [],
     Obj [(''taps'', Ref (n + 4)), (''casks'', Ref (n + 5)), (''formulae'', Ref (n + 6))],
     Arr [] [], Arr [] [], Arr [] [],
     Arr [] [], Arr [] [], Arr [] [],
     Obj [(''npm'', Ref (n + 11)), (''bun'', Ref (n + 12)), (''dart'', Ref (n + 13)),
          (''ruby'', Ref (n + 14))],
     Arr [] [], Arr [] [], Arr [] [], Arr [] [],
     Arr [] [],
     Obj [(''user'', Ref (n + 17)), (''settings'', Ref (n + 18))],
     Obj [], Arr [] [],
     Obj [(''nvm'', Ref (n + 20)), (''pyenv'', Ref (n + 22)), (''rbenv'', Ref (n + 24))],
     Obj [(''installed'', Bool False), (''versions'', Ref (n + 21))], Arr [] [],
     Obj [(''installed'', Bool False), (''versions'', Ref (n + 23))], Arr [] [],
     Obj [(''installed'', Bool False), (''versions'', Ref (n + 25))], Arr [] [],
     Obj [(''loginItems'', Ref (n + 27)), (''runningApps'', Ref (n + 28)),
          (''launchAgents'', Ref (n + 29))],
     Arr [] [], Arr [] [], Arr [] []]"

definition createEmptySetup :: "heap \<Rightarrow> string \<Rightarrow> heap \<times> val" where
  "createEmptySetup h now = (h @ emptySetupCells (length h) now, Ref (length h))"

section \<open>isCompatibleVersion\<close>

text \<open>
  \<^verbatim>\<open>s.split('.')\<close> on a string: the pieces between the separators, at least one piece.
\<close>

fun split :: "char \<Rightarrow> string \<Rightarrow> string list" where
  "split c [] = [[]]"
| "split c (x # xs) =
     (if x = c then [] # split c xs
      else (case split c xs of [] \<Rightarrow> [[x]] | w # ws \<Rightarrow> (x # w) # ws))"

text \<open>The text of a string before its first dot, for comparison with the first piece.\<close>

definition beforeDot :: "string \<Rightarrow> string" where
  "beforeDot s = takeWhile (\<lambda>c. c \<noteq> CHR ''.'') s"

text \<open>
  \<^verbatim>\<open>v.split('.')\<close> for a value that passed the truthiness test of line 163: only a
  string has the method.
\<close>

fun splitDot :: "val \<Rightarrow> string list option" where
  "splitDot (Str s) = Some (split CHR ''.'' s)"
| "splitDot v = None"

text \<open>The destructuring \<^verbatim>\<open>const [major] = parts\<close>.\<close>

fun firstOf :: "string list \<Rightarrow> val" where
  "firstOf [] = Undefined"
| "firstOf (x # xs) = Str x"

definition isCompatibleVersion :: "heap \<Rightarrow> val \<Rightarrow> bool option" where
  "isCompatibleVersion h setup = do {
     version \<leftarrow> getProp h setup ''version'';
     if \<not> truthy version then Some True
     else do {
       parts \<leftarrow> splitDot version;
       let major = firstOf parts;
       let currentMajor = firstOf (split CHR ''.'' SCHEMA_VERSION);
       Some (major = currentMajor)
     }
   }"

section \<open>diffSetups\<close>

text \<open>
  The object literal of lines 182--199, allocated at address \<open>n\<close> in creation order:
  the report, its section \<^verbatim>\<open>applications\<close> with three arrays, the section
  \<^verbatim>\<open>homebrew\<close> and the section \<^verbatim>\<open>globalPackages\<close>, each category
  \<^verbatim>\<open>{ added: [], removed: [] }\<close> taking three cells.
\<close>

definition pkgDiffCells :: "nat \<Rightarrow> cell list" where
  "pkgDiffCells a = [Obj [(''added'', Ref (a + 1)), (''removed'', Ref (a + 2))], Arr [] [], Arr [] []]"

definition emptyDiffCells :: "nat \<Rightarrow> cell list" where
  "emptyDiffCells n =
     [Obj [(''applications'', Ref (n + 1)), (''homebrew'', Ref (n + 5)),
           (''globalPackages'', Ref (n + 15))],
      Obj [(''added'', Ref (n + 2)), (''removed'', Ref (n + 3)), (''updated'', Ref (n + 4))],
      Arr [] [], Arr [] [], Arr [] [],
      Obj [(''formulae'', Ref (n + 6)), (''casks'', Ref (n + 9)), (''taps'', Ref (n + 12))]]
     @ pkgDiffCells (n + 6) @ pkgDiffCells (n + 9) @ pkgDiffCells (n + 12)
     @ [Obj [(''npm'', Ref (n + 16)), (''bun'', Ref (n + 19)), (''dart'', Ref (n + 22)),
             (''ruby'', Ref (n + 25))]]
     @ pkgDiffCells (n + 16) @ pkgDiffCells (n + 19) @ pkgDiffCells (n + 22)
     @ pkgDiffCells (n + 25)"

text \<open>
  A \<^verbatim>\<open>Map\<close> is the list of its entries in insertion order: setting a key that is
  there replaces the value in place, a new key goes to the end. A \<^verbatim>\<open>Set\<close> is the
  list of its members. Both are local to the call, like the arrays that \<^verbatim>\<open>map\<close>
  returns, and are HOL values.
\<close>

definition makeMap :: "(val \<times> val) list \<Rightarrow> (val \<times> val) list" where
  "makeMap pairs = foldl (\<lambda>m (k, v). AList.update k v m) [] pairs"

definition mapHas :: "(val \<times> val) list \<Rightarrow> val \<Rightarrow> bool" where
  "mapHas m k = (k \<in> fst ` set m)"

definition mapGet :: "(val \<times> val) list \<Rightarrow> val \<Rightarrow> val" where
  "mapGet m k = (case map_of m k of None \<Rightarrow> Undefined | Some v \<Rightarrow> v)"

definition makeSet :: "val list \<Rightarrow> val list" where
  "makeSet xs = foldl (\<lambda>s x. if x \<in> set s then s else s @ [x]) [] xs"

definition setHas :: "val list \<Rightarrow> val \<Rightarrow> bool" where
  "setHas s x = (x \<in> set s)"

text \<open>\<^verbatim>\<open>xs.map(f)\<close> for a callback that may throw.\<close>

fun mapM :: "('a \<Rightarrow> 'b option) \<Rightarrow> 'a list \<Rightarrow> 'b list option" where
  "mapM f [] = Some []"
| "mapM f (x # xs) = do { y \<leftarrow> f x; ys \<leftarrow> mapM f xs; Some (y # ys) }"

text \<open>Lines 202 and 203: \<^verbatim>\<open>new Map(setup.applications.map(a => [a.name, a]))\<close>.\<close>

definition appsMap :: "heap \<Rightarrow> val \<Rightarrow> (val \<times> val) list option" where
  "appsMap h setup = do {
     applications \<leftarrow> getProp h setup ''applications'';
     apps \<leftarrow> elements h applications;
     pairs \<leftarrow> mapM (\<lambda>a. do { name \<leftarrow> getProp h a ''name''; Some (name, a) }) apps;
     Some (makeMap pairs)
   }"

text \<open>The chain of reads \<^verbatim>\<open>v.k1.k2...\<close> and the statement \<^verbatim>\<open>v.k1.k2.push(x)\<close>.\<close>

fun path :: "heap \<Rightarrow> val \<Rightarrow> string list \<Rightarrow> val option" where
  "path h v [] = Some v"
| "path h v (k # ks) = do { w \<leftarrow> getProp h v k; path h w ks }"

definition pushInto :: "heap \<Rightarrow> val \<Rightarrow> string list \<Rightarrow> val \<Rightarrow> heap option" where
  "pushInto h v ks x = do { arr \<leftarrow> path h v ks; push h arr x }"

text \<open>
  Every statement that can throw returns the store it reached together with \<open>None\<close>.
  Lines 205--215, the loop over the entries of \<^verbatim>\<open>newApps\<close>.
\<close>

fun newAppsLoop :: "val \<Rightarrow> (val \<times> val) list \<Rightarrow> (val \<times> val) list \<Rightarrow> heap \<Rightarrow> heap \<times> unit option" where
  "newAppsLoop diff oldApps [] h = (h, Some ())"
| "newAppsLoop diff oldApps ((name, app) # rest) h =
     (if \<not> mapHas oldApps name then
        (case pushInto h diff [''applications'', ''added''] app of
           None \<Rightarrow> (h, None)
         | Some h' \<Rightarrow> newAppsLoop diff oldApps rest h')
      else
        (case do { oldVersion \<leftarrow> getProp h (mapGet oldApps name) ''version'';
                   newVersion \<leftarrow> getProp h app ''version'';
                   Some (oldVersion, newVersion) } of
           None \<Rightarrow> (h, None)
         | Some (oldVersion, newVersion) \<Rightarrow>
             if oldVersion \<noteq> newVersion then
               (case alloc h (Obj [(''name'', name), (''oldVersion'', oldVersion),
                                   (''newVersion'', newVersion)]) of
                  (h1, entry) \<Rightarrow>
                    (case pushInto h1 diff [''applications'', ''updated''] entry of
                       None \<Rightarrow> (h1, None)
                     | Some h' \<Rightarrow> newAppsLoop diff oldApps rest h'))
             else newAppsLoop diff oldApps rest h))"

text \<open>Lines 217--221, the loop over the entries of \<^verbatim>\<open>oldApps\<close>.\<close>

fun oldAppsLoop :: "val \<Rightarrow> (val \<times> val) list \<Rightarrow> (val \<times> val) list \<Rightarrow> heap \<Rightarrow> heap \<times> unit option" where
  "oldAppsLoop diff newApps [] h = (h, Some ())"
| "oldAppsLoop diff newApps ((name, app) # rest) h =
     (if \<not> mapHas newApps name then
        (case pushInto h diff [''applications'', ''removed''] app of
           None \<Rightarrow> (h, None)
         | Some h' \<Rightarrow> oldAppsLoop diff newApps rest h')
      else oldAppsLoop diff newApps rest h)"

text \<open>\<^verbatim>\<open>p.name || p\<close> and \<^verbatim>\<open>typeof pkg === 'string' ? pkg : pkg.name\<close>.\<close>

definition pkgName :: "heap \<Rightarrow> val \<Rightarrow> val option" where
  "pkgName h p = do { name \<leftarrow> getProp h p ''name''; Some (if truthy name then name else p) }"

fun isString :: "val \<Rightarrow> bool" where
  "isString (Str s) = True"
| "isString v = False"

definition pkgLabel :: "heap \<Rightarrow> val \<Rightarrow> val option" where
  "pkgLabel h pkg = (if isString pkg then Some pkg else getProp h pkg ''name'')"

text \<open>
  The two loops of \<^verbatim>\<open>comparePackages\<close> (lines 228--233 and 235--240) differ in the
  array they push to and in the set they test: \<open>field\<close> is \<open>''added''\<close> with the names
  of the old packages, or \<open>''removed''\<close> with the names of the new ones. The target of
  the push is \<^verbatim>\<open>diff.homebrew[category][field]\<close> whatever the category is. The loop
  runs over the elements read when it starts: the only arrays written during the call are
  those of the report, and no loop iterates over one of them.
\<close>

fun pkgLoop :: "val \<Rightarrow> string \<Rightarrow> string \<Rightarrow> val list \<Rightarrow> val list \<Rightarrow> heap \<Rightarrow> heap \<times> unit option" where
  "pkgLoop diff category field others [] h = (h, Some ())"
| "pkgLoop diff category field others (pkg # rest) h =
     (case pkgName h pkg of
        None \<Rightarrow> (h, None)
      | Some name \<Rightarrow>
          if \<not> setHas others name then
            (case do { arr \<leftarrow> path h diff [''homebrew'', category, field];
                       x \<leftarrow> pkgLabel h pkg;
                       push h arr x } of
               None \<Rightarrow> (h, None)
             | Some h' \<Rightarrow> pkgLoop diff category field others rest h')
          else pkgLoop diff category field others rest h)"

text \<open>
  \<open>andThen\<close> runs the next statement on the store the previous one left, unless that one
  threw.
\<close>

definition andThen :: "heap \<times> unit option \<Rightarrow> (heap \<Rightarrow> heap \<times> 'a option) \<Rightarrow> heap \<times> 'a option" where
  "andThen r f = (case r of (h, None) \<Rightarrow> (h, None) | (h, Some u) \<Rightarrow> f h)"

text \<open>
  Lines 224--241. The parameter \<^verbatim>\<open>type\<close> of the source is not used by its body and
  is left out.
\<close>

definition comparePackages :: "val \<Rightarrow> val \<Rightarrow> val \<Rightarrow> string \<Rightarrow> heap \<Rightarrow> heap \<times> unit option" where
  "comparePackages diff oldPkgs newPkgs category h =
     (case do { olds \<leftarrow> elements h oldPkgs;
                oldNames \<leftarrow> mapM (pkgName h) olds;
                news \<leftarrow> elements h newPkgs;
                newNames \<leftarrow> mapM (pkgName h) news;
                Some (olds, makeSet oldNames, news, makeSet newNames) } of
        None \<Rightarrow> (h, None)
      | Some (olds, oldSet, news, newSet) \<Rightarrow>
          andThen (pkgLoop diff category ''added'' oldSet news h)
            (pkgLoop diff category ''removed'' newSet olds))"

text \<open>Lines 243--245: one call for each of \<open>''formulae''\<close>, \<open>''casks''\<close>, \<open>''taps''\<close>.\<close>

definition compareHomebrew :: "val \<Rightarrow> val \<Rightarrow> val \<Rightarrow> string \<Rightarrow> heap \<Rightarrow> heap \<times> unit option" where
  "compareHomebrew diff oldSetup newSetup category h =
     (case do { oldHomebrew \<leftarrow> getProp h oldSetup ''homebrew'';
                oldPkgs \<leftarrow> getProp h oldHomebrew category;
                newHomebrew \<leftarrow> getProp h newSetup ''homebrew'';
                newPkgs \<leftarrow> getProp h newHomebrew category;
                Some (oldPkgs, newPkgs) } of
        None \<Rightarrow> (h, None)
      | Some (oldPkgs, newPkgs) \<Rightarrow> comparePackages diff oldPkgs newPkgs category h)"

text \<open>\<^verbatim>\<open>v || []\<close>: the array literal is evaluated, and allocated, when \<open>v\<close> is falsy.\<close>

definition orEmpty :: "heap \<Rightarrow> val \<Rightarrow> heap \<times> val" where
  "orEmpty h v = (if truthy v then (h, v) else alloc h (Arr [] []))"

text \<open>Lines 248--252.\<close>

fun globalLoop :: "val \<Rightarrow> val \<Rightarrow> val \<Rightarrow> string list \<Rightarrow> heap \<Rightarrow> heap \<times> unit option" where
  "globalLoop diff oldSetup newSetup [] h = (h, Some ())"
| "globalLoop diff oldSetup newSetup (manager # rest) h =
     (case do { oldGlobal \<leftarrow> getProp h oldSetup ''globalPackages'';
                getProp h oldGlobal manager } of
        None \<Rightarrow> (h, None)
      | Some ov \<Rightarrow>
          (case orEmpty h ov of
             (h1, oldPkgs) \<Rightarrow>
               (case do { newGlobal \<leftarrow> getProp h1 newSetup ''globalPackages'';
                          getProp h1 newGlobal manager } of
                  None \<Rightarrow> (h1, None)
                | Some nv \<Rightarrow>
                    (case orEmpty h1 nv of
                       (h2, newPkgs) \<Rightarrow>
                         (case comparePackages diff oldPkgs newPkgs manager h2 of
                            (h3, None) \<Rightarrow> (h3, None)
                          | (h3, Some u) \<Rightarrow> globalLoop diff oldSetup newSetup rest h3)))))"

text \<open>Lines 202--221, the block \<^verbatim>\<open>// Compare applications\<close>.\<close>

definition compareApplications :: "val \<Rightarrow> val \<Rightarrow> val \<Rightarrow> heap \<Rightarrow> heap \<times> unit option" where
  "compareApplications diff oldSetup newSetup h =
     (case do { oldApps \<leftarrow> appsMap h oldSetup;
                newApps \<leftarrow> appsMap h newSetup;
                Some (oldApps, newApps) } of
        None \<Rightarrow> (h, None)
      | Some (oldApps, newApps) \<Rightarrow>
          andThen (newAppsLoop diff oldApps newApps h) (oldAppsLoop diff newApps oldApps))"

text \<open>Lines 243--245, the three calls for \<^verbatim>\<open>homebrew\<close>.\<close>

definition compareAllHomebrew :: "val \<Rightarrow> val \<Rightarrow> val \<Rightarrow> heap \<Rightarrow> heap \<times> unit option" where
  "compareAllHomebrew diff oldSetup newSetup h =
     andThen (compareHomebrew diff oldSetup newSetup ''formulae'' h) (\<lambda>h.
     andThen (compareHomebrew diff oldSetup newSetup ''casks'' h)
       (compareHomebrew diff oldSetup newSetup ''taps''))"

text \<open>
  \<open>diffSetups h oldSetup newSetup\<close> returns the store after the call and the reference
  to the report, or \<open>None\<close> when the call throws.
\<close>

definition diffSetups :: "heap \<Rightarrow> val \<Rightarrow> val \<Rightarrow> heap \<times> val option" where
  "diffSetups h oldSetup newSetup =
     (let diff = Ref (length h);
          h0 = h @ emptyDiffCells (length h)
      in andThen (compareApplications diff oldSetup newSetup h0) (\<lambda>h.
         andThen (compareAllHomebrew diff oldSetup newSetup h) (\<lambda>h.
         andThen (globalLoop diff oldSetup newSetup [''npm'', ''bun'', ''dart'', ''ruby''] h)
           (\<lambda>h. (h, Some diff)))))"

section \<open>Conformance of a document\<close>

text \<open>
  The conditions under which the blocks of \<open>validateSetup\<close> push nothing, read off their
  tests: a field that is truthy, a field that is an array, a field that is absent (falsy)
  or an array.
\<close>

definition fieldTruthy :: "heap \<Rightarrow> val \<Rightarrow> string \<Rightarrow> bool" where
  "fieldTruthy h v k = (case getProp h v k of None \<Rightarrow> False | Some x \<Rightarrow> truthy x)"

definition fieldIsArray :: "heap \<Rightarrow> val \<Rightarrow> string \<Rightarrow> bool" where
  "fieldIsArray h v k = (case getProp h v k of None \<Rightarrow> False | Some x \<Rightarrow> isArray h x)"

definition fieldOptArray :: "heap \<Rightarrow> val \<Rightarrow> string \<Rightarrow> bool" where
  "fieldOptArray h v k =
     (case getProp h v k of None \<Rightarrow> False | Some x \<Rightarrow> \<not> truthy x \<or> isArray h x)"

text \<open>
  Every entry of the array \<open>homebrew.k\<close> exposes a truthy \<^verbatim>\<open>name\<close>: the condition under
  which a \<^verbatim>\<open>forEach\<close> loop of lines 53--57 and 61--65 pushes nothing.
\<close>

definition entriesNamed :: "heap \<Rightarrow> val \<Rightarrow> string \<Rightarrow> bool" where
  "entriesNamed h homebrew k =
     (case getProp h homebrew k of
        None \<Rightarrow> False
      | Some arr \<Rightarrow>
          (case elements h arr of
             None \<Rightarrow> False
           | Some es \<Rightarrow> list_all (\<lambda>e. fieldTruthy h e ''name'') es))"

definition homebrewEntriesNamed :: "heap \<Rightarrow> val \<Rightarrow> bool" where
  "homebrewEntriesNamed h setup =
     (case getProp h setup ''homebrew'' of
        None \<Rightarrow> False
      | Some homebrew \<Rightarrow> entriesNamed h homebrew ''casks'' \<and> entriesNamed h homebrew ''formulae'')"

text \<open>
  Every check other than the two loops over the entries passes (lines 23--49 and 70--102).
\<close>

definition otherwiseConforming :: "heap \<Rightarrow> val \<Rightarrow> bool" where
  "otherwiseConforming h setup =
     ((case getProp h setup ''system'' of
         None \<Rightarrow> False
       | Some system \<Rightarrow>
           truthy system \<and> fieldTruthy h system ''hostname''
           \<and> fieldTruthy h system ''macosVersion'' \<and> fieldTruthy h system ''captureDate'')
      \<and> (case getProp h setup ''homebrew'' of
            None \<Rightarrow> False
          | Some homebrew \<Rightarrow>
              truthy homebrew \<and> fieldIsArray h homebrew ''taps''
              \<and> fieldIsArray h homebrew ''casks'' \<and> fieldIsArray h homebrew ''formulae'')
      \<and> fieldOptArray h setup ''applications''
      \<and> (case getProp h setup ''globalPackages'' of
            None \<Rightarrow> False
          | Some globalPackages \<Rightarrow>
              truthy globalPackages \<longrightarrow>
                list_all (fieldOptArray h globalPackages) [''npm'', ''bun'', ''dart'', ''ruby''])
      \<and> fieldOptArray h setup ''shellConfigs''
      \<and> (case getProp h setup ''gitConfig'' of
            None \<Rightarrow> False
          | Some gitConfig \<Rightarrow>
              truthy gitConfig \<longrightarrow>
                (case getProp h gitConfig ''user'' of
                   None \<Rightarrow> False
                 | Some user \<Rightarrow> \<not> truthy user \<or> isObjectType user)
                \<and> fieldOptArray h gitConfig ''settings'')
      \<and> fieldOptArray h setup ''githubRepos'')"

section \<open>Sample documents\<close>

text \<open>
  A conforming document whose only cask is the bare string \<^verbatim>\<open>"firefox"\<close>, the same
  document with the cask as an object, a conforming document without \<^verbatim>\<open>version\<close>, a
  conforming document whose version is the empty string, and a document whose only cask is
  \<^verbatim>\<open>null\<close>.
\<close>

definition stringCaskDoc :: heap where
  "stringCaskDoc =
     [Obj [(''version'', Str ''2.0''), (''system'', Ref 1), (''homebrew'', Ref 2)],
      Obj [(''hostname'', Str ''studio''), (''macosVersion'', Str ''14.0''),
           (''captureDate'', Str ''2024-01-01T00:00:00.000Z'')],
      Obj [(''taps'', Ref 3), (''casks'', Ref 4), (''formulae'', Ref 5)],
      Arr [] [], Arr [Str ''firefox''] [], Arr [] []]"

definition namedCaskDoc :: heap where
  "namedCaskDoc =
     [Obj [(''version'', Str ''2.0''), (''system'', Ref 1), (''homebrew'', Ref 2)],
      Obj [(''hostname'', Str ''studio''), (''macosVersion'', Str ''14.0''),
           (''captureDate'', Str ''2024-01-01T00:00:00.000Z'')],
      Obj [(''taps'', Ref 3), (''casks'', Ref 4), (''formulae'', Ref 5)],
      Arr [] [], Arr [Ref 6] [], Arr [] [],
      Obj [(''name'', Str ''firefox''), (''version'', Str ''121.0'')]]"

definition legacyDoc :: heap where
  "legacyDoc =
     [Obj [(''system'', Ref 1), (''homebrew'', Ref 2)],
      Obj [(''hostname'', Str ''studio''), (''macosVersion'', Str ''14.0''),
           (''captureDate'', Str ''2024-01-01T00:00:00.000Z'')],
      Obj [(''taps'', Ref 3), (''casks'', Ref 4), (''formulae'', Ref 5)],
      Arr [] [], Arr [] [], Arr [] []]"

definition emptyVersionDoc :: heap where
  "emptyVersionDoc =
     [Obj [(''version'', Str ''''), (''system'', Ref 1), (''homebrew'', Ref 2)],
      Obj [(''hostname'', Str ''studio''), (''macosVersion'', Str ''14.0''),
           (''captureDate'', Str ''2024-01-01T00:00:00.000Z'')],
      Obj [(''taps'', Ref 3), (''casks'', Ref 4), (''formulae'', Ref 5)],
      Arr [] [], Arr [] [], Arr [] []]"

definition nullCaskDoc :: heap where
  "nullCaskDoc =
     [Obj [(''version'', Str ''2.0''), (''system'', Ref 1), (''homebrew'', Ref 2)],
      Obj [(''hostname'', Str ''studio''), (''macosVersion'', Str ''14.0''),
           (''captureDate'', Str ''2024-01-01T00:00:00.000Z'')],
      Obj [(''taps'', Ref 3), (''casks'', Ref 4), (''formulae'', Ref 5)],
      Arr [] [], Arr [Null] [], Arr [] []]"

section \<open>The store during diffSetups\<close>

text \<open>
  The cells of the report after some pushes: \<open>reportCells n f\<close> is the literal of lines
  182--199 at address \<open>n\<close> with the elements \<open>f k\<close> in the array at offset \<open>k\<close>. The offsets
  of the seventeen arrays are \<open>arrayOffsets\<close>; those of \<^verbatim>\<open>applications\<close> are 2
  (\<^verbatim>\<open>added\<close>), 3 (\<^verbatim>\<open>removed\<close>) and 4 (\<^verbatim>\<open>updated\<close>).
\<close>

definition pkgCells :: "nat \<Rightarrow> val list \<Rightarrow> val list \<Rightarrow> cell list" where
  "pkgCells a xs ys =
     [Obj [(''added'', Ref (a + 1)), (''removed'', Ref (a + 2))], Arr xs [], Arr ys []]"

definition reportCells :: "nat \<Rightarrow> (nat \<Rightarrow> val list) \<Rightarrow> cell list" where
  "reportCells n f =
     [Obj [(''applications'', Ref (n + 1)), (''homebrew'', Ref (n + 5)),
           (''globalPackages'', Ref (n + 15))],
      Obj [(''added'', Ref (n + 2)), (''removed'', Ref (n + 3)), (''updated'', Ref (n + 4))],
      Arr (f 2) [], Arr (f 3) [], Arr (f 4) [],
      Obj [(''formulae'', Ref (n + 6)), (''casks'', Ref (n + 9)), (''taps'', Ref (n + 12))]]
     @ pkgCells (n + 6) (f 7) (f 8) @ pkgCells (n + 9) (f 10) (f 11)
     @ pkgCells (n + 12) (f 13) (f 14)
     @ [Obj [(''npm'', Ref (n + 16)), (''bun'', Ref (n + 19)), (''dart'', Ref (n + 22)),
             (''ruby'', Ref (n + 25))]]
     @ pkgCells (n + 16) (f 17) (f 18) @ pkgCells (n + 19) (f 20) (f 21)
     @ pkgCells (n + 22) (f 23) (f 24) @ pkgCells (n + 25) (f 26) (f 27)"

definition arrayOffsets :: "nat set" where
  "arrayOffsets = {2, 3, 4, 7, 8, 10, 11, 13, 14, 17, 18, 20, 21, 23, 24, 26, 27}"

definition homebrewOffsets :: "nat set" where
  "homebrewOffsets = {7, 8, 10, 11, 13, 14}"

definition globalOffsets :: "nat set" where
  "globalOffsets = {17, 18, 20, 21, 23, 24, 26, 27}"

text \<open>
  A store reached from \<open>hb @ reportCells (length hb) f @ U\<close> by pushes to the arrays of
  \<^verbatim>\<open>homebrew\<close> and by allocations: the cells before the report, the arrays of
  \<^verbatim>\<open>applications\<close> and of \<^verbatim>\<open>globalPackages\<close> and the cells \<open>U\<close> are as they were.
\<close>

definition reportShape :: "heap \<Rightarrow> (nat \<Rightarrow> val list) \<Rightarrow> cell list \<Rightarrow> heap \<Rightarrow> bool" where
  "reportShape hb f U S =
     (\<exists>g V. S = hb @ reportCells (length hb) g @ U @ V
            \<and> (\<forall>k. k \<in> homebrewOffsets \<or> g k = f k))"

text \<open>
  A value of the store \<open>h\<close>: a primitive, or the address of one of its cells. The store is
  closed when every value kept in a cell is a value of the store, as in the trees that
  \<^verbatim>\<open>JSON.parse\<close> builds.
\<close>

fun okVal :: "heap \<Rightarrow> val \<Rightarrow> bool" where
  "okVal h (Ref a) = (a < length h)"
| "okVal h v = True"

fun cellVals :: "cell \<Rightarrow> val list" where
  "cellVals (Obj ps) = map snd ps"
| "cellVals (Arr xs ps) = xs @ map snd ps"

definition closed :: "heap \<Rightarrow> bool" where
  "closed h = list_all (\<lambda>c. list_all (okVal h) (cellVals c)) h"

text \<open>An entry of an array on which a property read does not throw.\<close>

definition entryOk :: "heap \<Rightarrow> val \<Rightarrow> bool" where
  "entryOk h v = (okVal h v \<and> v \<noteq> Undefined \<and> v \<noteq> Null)"

section \<open>The applications report, as the lookups determine it\<close>

text \<open>
  The array at the end of a chain of properties of the report, the name and the version
  of an entry (\<^verbatim>\<open>undefined\<close> when the entry has none), and the three lists that the
  loops of lines 205--221 are to produce from the lookups \<^verbatim>\<open>oldApps\<close> and \<^verbatim>\<open>newApps\<close>:
  the entries of the names that the other lookup lacks, and for the names in both lookups
  whose versions differ, the name with the two versions.
\<close>

definition reportList :: "heap \<Rightarrow> val \<Rightarrow> string list \<Rightarrow> val list option" where
  "reportList h d ks = do { arr \<leftarrow> path h d ks; elements h arr }"

definition nameOf :: "heap \<Rightarrow> val \<Rightarrow> val" where
  "nameOf h a = (case getProp h a ''name'' of None \<Rightarrow> Undefined | Some v \<Rightarrow> v)"

definition versionOf :: "heap \<Rightarrow> val \<Rightarrow> val" where
  "versionOf h a = (case getProp h a ''version'' of None \<Rightarrow> Undefined | Some v \<Rightarrow> v)"

definition onlyIn :: "(val \<times> val) list \<Rightarrow> (val \<times> val) list \<Rightarrow> val list" where
  "onlyIn apps others = map snd (filter (\<lambda>(name, app). \<not> mapHas others name) apps)"

definition changedIn :: "heap \<Rightarrow> (val \<times> val) list \<Rightarrow> (val \<times> val) list \<Rightarrow> (val \<times> val \<times> val) list" where
  "changedIn h oldApps newApps =
     map (\<lambda>(name, app). (name, versionOf h (mapGet oldApps name), versionOf h app))
       (filter (\<lambda>(name, app). mapHas oldApps name
                  \<and> versionOf h (mapGet oldApps name) \<noteq> versionOf h app) newApps)"

fun updatedCell :: "val \<times> val \<times> val \<Rightarrow> cell" where
  "updatedCell (name, oldVersion, newVersion) =
     Obj [(''name'', name), (''oldVersion'', oldVersion), (''newVersion'', newVersion)]"

text \<open>The cell behind a value, when the value is the address of one.\<close>

fun cellAt :: "heap \<Rightarrow> val \<Rightarrow> cell option" where
  "cellAt h (Ref a) = (if a < length h then Some (h ! a) else None)"
| "cellAt h v = None"

text \<open>
  The entries of \<^verbatim>\<open>setup.applications\<close>, and the report on two lists of entries with
  distinct names, in the words of the specification: added are the entries of the new list
  whose name no old entry has, removed the entries of the old list whose name no new entry
  has, updated the name with the old and the new version for every old and new entry of
  one name whose versions are not equal.
\<close>

definition appEntries :: "heap \<Rightarrow> val \<Rightarrow> val list option" where
  "appEntries h setup = do {
     applications \<leftarrow> getProp h setup ''applications'';
     elements h applications
   }"

definition missingFrom :: "heap \<Rightarrow> val list \<Rightarrow> val list \<Rightarrow> val list" where
  "missingFrom h others es = filter (\<lambda>a. nameOf h a \<notin> nameOf h ` set others) es"

definition versionChanges :: "heap \<Rightarrow> val list \<Rightarrow> val list \<Rightarrow> (val \<times> val \<times> val) list" where
  "versionChanges h oes nes =
     concat (map (\<lambda>a. map (\<lambda>b. (nameOf h a, versionOf h b, versionOf h a))
                         (filter (\<lambda>b. nameOf h b = nameOf h a \<and> versionOf h b \<noteq> versionOf h a)
                            oes)) nes)"

text \<open>
  Two valid documents in one store, the old one at address 0 and the new one at address 12.
  Between them \<^verbatim>\<open>Xcode.app\<close> changes its version, \<^verbatim>\<open>Slack.app\<close> stays,
  \<^verbatim>\<open>Zoom.app\<close> goes and \<^verbatim>\<open>Figma.app\<close> comes; the global npm packages of the new
  document are \<open>npm\<close>, those of the old one are none.
\<close>

definition oldDocCells :: "cell list" where
  "oldDocCells =
     [Obj [(''version'', Str ''2.0''), (''system'', Ref 1), (''applications'', Ref 2),
           (''homebrew'', Ref 6), (''globalPackages'', Ref 10)],
      Obj [(''hostname'', Str ''studio''), (''macosVersion'', Str ''14.0''),
           (''captureDate'', Str ''2024-01-01T00:00:00.000Z'')],
      Arr [Ref 3, Ref 4, Ref 5] [],
      Obj [(''name'', Str ''Xcode.app''), (''version'', Str ''14.0'')],
      Obj [(''name'', Str ''Slack.app''), (''version'', Str ''4.36'')],
      Obj [(''name'', Str ''Zoom.app''), (''version'', Str ''5.17'')],
      Obj [(''taps'', Ref 7), (''casks'', Ref 8), (''formulae'', Ref 9)],
      Arr [Str ''homebrew/core''] [], Arr [] [], Arr [] [],
      Obj [(''npm'', Ref 11)],
      Arr [] []]"

definition newDocCells :: "val list \<Rightarrow> cell list" where
  "newDocCells npm =
     [Obj [(''version'', Str ''2.0''), (''system'', Ref 13), (''applications'', Ref 14),
           (''homebrew'', Ref 18), (''globalPackages'', Ref 22)],
      Obj [(''hostname'', Str ''laptop''), (''macosVersion'', Str ''14.2''),
           (''captureDate'', Str ''2024-06-01T00:00:00.000Z'')],
      Arr [Ref 15, Ref 16, Ref 17] [],
      Obj [(''name'', Str ''Xcode.app''), (''version'', Str ''15.0'')],
      Obj [(''name'', Str ''Slack.app''), (''version'', Str ''4.36'')],
      Obj [(''name'', Str ''Figma.app''), (''version'', Str ''124.0'')],
      Obj [(''taps'', Ref 19), (''casks'', Ref 20), (''formulae'', Ref 21)],
      Arr [Str ''homebrew/core''] [], Arr [] [], Arr [] [],
      Obj [(''npm'', Ref 23)],
      Arr npm []]"

definition twoDocs :: "val list \<Rightarrow> heap" where
  "twoDocs npm = oldDocCells @ newDocCells npm"

text \<open>
  A valid document with \<^verbatim>\<open>applications\<close> and without \<^verbatim>\<open>globalPackages\<close>, and the
  store that holds it together with a second such document, at address 7, whose only
  application is \<^verbatim>\<open>Figma.app\<close>.
\<close>

definition noGlobalDoc :: heap where
  "noGlobalDoc =
     [Obj [(''version'', Str ''2.0''), (''system'', Ref 1), (''applications'', Ref 2),
           (''homebrew'', Ref 3)],
      Obj [(''hostname'', Str ''studio''), (''macosVersion'', Str ''14.0''),
           (''captureDate'', Str ''2024-01-01T00:00:00.000Z'')],
      Arr [] [],
      Obj [(''taps'', Ref 4), (''casks'', Ref 5), (''formulae'', Ref 6)],
      Arr [] [], Arr [] [], Arr [] []]"

definition noGlobalPair :: heap where
  "noGlobalPair = noGlobalDoc @
     [Obj [(''version'', Str ''2.0''), (''system'', Ref 8), (''applications'', Ref 9),
           (''homebrew'', Ref 11)],
      Obj [(''hostname'', Str ''laptop''), (''macosVersion'', Str ''14.2''),
           (''captureDate'', Str ''2024-06-01T00:00:00.000Z'')],
      Arr [Ref 10] [],
      Obj [(''name'', Str ''Figma.app''), (''version'', Str ''124.0'')],
      Obj [(''taps'', Ref 12), (''casks'', Ref 13), (''formulae'', Ref 14)],
      Arr [] [], Arr [] [], Arr [] []]"

section \<open>Properties of validateSetup\<close>

subsection \<open>The backfill and the checks\<close>

text \<open>
  Writing \<^verbatim>\<open>version\<close> changes no read of another property, no array test and no
  element list, so the checks give the same list on the store before and after the backfill.
\<close>

lemma ownProp_update: "ownProp (AList.update k x ps) k' = (if k' = k then x else ownProp ps k')"
  by (simp add: ownProp_def update_conv')

lemma props_setField: "ownProp (props (setField k x c)) k' = (if k' = k then x else ownProp (props c) k')"
  by (cases c) (simp_all add: ownProp_update)

lemma getProp_setField:
  "k' \<noteq> k \<Longrightarrow> getProp (h[a := setField k x (h ! a)]) v k' = getProp h v k'"
  by (cases v; cases "a < length h") (auto simp: props_setField nth_list_update)

lemma isArray_setField: "isArray (h[a := setField k x (h ! a)]) v = isArray h v"
proof (cases v)
  case (Ref b)
  then show ?thesis
    by (cases "h ! a"; cases "a < length h") (auto simp: nth_list_update split: cell.splits)
qed simp_all

lemma elements_setField: "elements (h[a := setField k x (h ! a)]) v = elements h v"
proof (cases v)
  case (Ref b)
  then show ?thesis
    by (cases "h ! a"; cases "a < length h") (auto simp: nth_list_update split: cell.splits)
qed simp_all

lemma checkNames_setField:
  "checkNames (h[a := setField ''version'' x (h ! a)]) kind es idx errs = checkNames h kind es idx errs"
  by (induction es arbitrary: idx errs) (simp_all add: getProp_setField)

lemma checkManagers_setField:
  "''version'' \<notin> set ms \<Longrightarrow>
   checkManagers (h[a := setField ''version'' x (h ! a)]) g ms errs = checkManagers h g ms errs"
  by (induction ms arbitrary: errs) (auto simp: getProp_setField isArray_setField)

lemma runChecks_setField:
  "runChecks (h[a := setField ''version'' x (h ! a)]) setup = runChecks h setup"
  by (simp add: runChecks_def validateSystem_def validateHomebrew_def validateArrayField_def
      validateGlobalPackages_def validateGitConfig_def checkEntries_def
      getProp_setField isArray_setField elements_setField checkNames_setField
      checkManagers_setField cong: if_cong)

lemma backfillVersion_cases:
  "backfillVersion h setup = None \<and> (setup = Undefined \<or> setup = Null)
   \<or> backfillVersion h setup = Some h
   \<or> (\<exists>a. setup = Ref a \<and> a < length h
        \<and> backfillVersion h setup = Some (h[a := setField ''version'' (Str ''1.0'') (h ! a)]))"
  by (cases "setup") (auto simp: backfillVersion_def)

lemma runChecks_backfill:
  "backfillVersion h setup = Some h' \<Longrightarrow> runChecks h' setup = runChecks h setup"
  using backfillVersion_cases [of h "setup"] by (auto simp: runChecks_setField)

lemma validateSetup_result:
  "backfillVersion h setup = Some h' \<Longrightarrow>
   validateSetup h setup =
     (h', map_option (\<lambda>errs. \<lparr>valid = (errs = []), errors = errs\<rparr>) (runChecks h setup))"
  by (simp add: validateSetup_def runChecks_backfill)

lemma update_absent: "map_of ps k = None \<Longrightarrow> AList.update k v ps = ps @ [(k, v)]"
  by (induction ps) (auto split: if_splits)

lemma validateSetup_store:
  "fst (validateSetup h setup) = (case backfillVersion h setup of None \<Rightarrow> h | Some h' \<Rightarrow> h')"
  by (simp add: validateSetup_def split: option.splits)

lemma validateSetup_overwrite:
  assumes "a < length h" "\<not> truthy (ownProp (props (h ! a)) ''version'')"
  shows "fst (validateSetup h (Ref a)) = h[a := setField ''version'' (Str ''1.0'') (h ! a)]"
    and "snd (validateSetup h (Ref a)) =
           snd (validateSetup (h[a := setField ''version'' (Str ''1.0'') (h ! a)]) (Ref a))"
proof -
  let ?h' = "h[a := setField ''version'' (Str ''1.0'') (h ! a)]"
  have b1: "backfillVersion h (Ref a) = Some ?h'"
    using assms by (simp add: backfillVersion_def)
  have b2: "backfillVersion ?h' (Ref a) = Some ?h'"
    using assms(1) by (simp add: backfillVersion_def props_setField)
  have r: "runChecks ?h' (Ref a) = runChecks h (Ref a)"
    by (rule runChecks_setField)
  show "fst (validateSetup h (Ref a)) = ?h'"
    by (simp add: validateSetup_result [OF b1])
  show "snd (validateSetup h (Ref a)) = snd (validateSetup ?h' (Ref a))"
    by (simp add: validateSetup_result [OF b1] validateSetup_result [OF b2] r)
qed

lemma validateSetup_version:
  assumes "a < length h"
  shows "getProp (fst (validateSetup h (Ref a))) (Ref a) ''version'' =
           Some (if truthy (ownProp (props (h ! a)) ''version'')
                 then ownProp (props (h ! a)) ''version'' else Str ''1.0'')"
  using assms by (simp add: validateSetup_store backfillVersion_def props_setField)

text \<open>
  Claim C3, the counterexample. The document of \<open>emptyVersionDoc\<close> conforms and has a
  \<^verbatim>\<open>version\<close> field, whose value is the empty string. The test of line 16 is a
  truthiness test, so \<open>validateSetup\<close> overwrites that value with \<^verbatim>\<open>"1.0"\<close>: it mutates
  a document that does not lack the field.
\<close>

theorem validateSetup_empty_version_counterexample:
  "map_of (props (emptyVersionDoc ! 0)) ''version'' = Some (Str '''')
   \<and> getProp emptyVersionDoc (Ref 0) ''version'' = Some (Str '''')
   \<and> fst (validateSetup emptyVersionDoc (Ref 0)) \<noteq> emptyVersionDoc
   \<and> getProp (fst (validateSetup emptyVersionDoc (Ref 0))) (Ref 0) ''version'' = Some (Str ''1.0'')
   \<and> snd (validateSetup emptyVersionDoc (Ref 0)) = Some \<lparr>valid = True, errors = []\<rparr>"
  by code_simp

text \<open>
  Claim C3, amended. \<open>validateSetup\<close> writes \<^verbatim>\<open>version = "1.0"\<close> on the input document
  exactly when its version is missing or falsy (\<^verbatim>\<open>null\<close>, empty, zero or \<^verbatim>\<open>false\<close>): a
  missing property is added after the others, a falsy value is overwritten in place. After
  the call the version of the document is the old one when that was truthy and
  \<^verbatim>\<open>"1.0"\<close> otherwise. The write adds no error: the result is the result for the document
  that already carries \<^verbatim>\<open>version = "1.0"\<close>. A document with a truthy version leaves the
  store as it was, and the store differs after the call only if the version of the document
  was missing or falsy. In every case the store after the call has the same cells, every
  cell other than the document is the same, and every property other than
  \<^verbatim>\<open>version\<close> and every array reads as before.
\<close>

theorem validateSetup_backfill:
  "(a < length h \<and> h ! a = Obj ps \<and> map_of ps ''version'' = None \<longrightarrow>
      fst (validateSetup h (Ref a)) = h[a := Obj (ps @ [(''version'', Str ''1.0'')])]
      \<and> snd (validateSetup h (Ref a)) =
          snd (validateSetup (h[a := Obj (ps @ [(''version'', Str ''1.0'')])]) (Ref a)))
   \<and> (a < length h \<and> h ! a = Obj ps \<and> map_of ps ''version'' = Some x \<and> \<not> truthy x \<longrightarrow>
      fst (validateSetup h (Ref a)) = h[a := Obj (AList.update ''version'' (Str ''1.0'') ps)]
      \<and> snd (validateSetup h (Ref a)) =
          snd (validateSetup (h[a := Obj (AList.update ''version'' (Str ''1.0'') ps)]) (Ref a)))
   \<and> (a < length h \<longrightarrow>
      getProp (fst (validateSetup h (Ref a))) (Ref a) ''version'' =
        Some (if truthy (ownProp (props (h ! a)) ''version'')
              then ownProp (props (h ! a)) ''version'' else Str ''1.0''))
   \<and> (getProp h setup ''version'' = Some w \<and> truthy w \<longrightarrow> fst (validateSetup h setup) = h)
   \<and> (fst (validateSetup h setup) \<noteq> h \<longrightarrow>
        (\<exists>b. setup = Ref b \<and> b < length h \<and> \<not> truthy (ownProp (props (h ! b)) ''version'')))
   \<and> length (fst (validateSetup h setup)) = length h
   \<and> (\<forall>b. Ref b \<noteq> setup \<longrightarrow> fst (validateSetup h setup) ! b = h ! b)
   \<and> (\<forall>v k. k \<noteq> ''version'' \<longrightarrow> getProp (fst (validateSetup h setup)) v k = getProp h v k)
   \<and> (\<forall>v. elements (fst (validateSetup h setup)) v = elements h v)"
proof -
  have keep: "getProp h setup ''version'' = Some w \<and> truthy w \<longrightarrow> fst (validateSetup h setup) = h"
    by (simp add: validateSetup_store backfillVersion_def)
  have only: "fst (validateSetup h setup) \<noteq> h \<longrightarrow>
        (\<exists>b. setup = Ref b \<and> b < length h \<and> \<not> truthy (ownProp (props (h ! b)) ''version''))"
    by (cases "setup") (auto simp: validateSetup_store backfillVersion_def split: if_splits)
  have frame: "length (fst (validateSetup h setup)) = length h
     \<and> (\<forall>b. Ref b \<noteq> setup \<longrightarrow> fst (validateSetup h setup) ! b = h ! b)
     \<and> (\<forall>v k. k \<noteq> ''version'' \<longrightarrow> getProp (fst (validateSetup h setup)) v k = getProp h v k)
     \<and> (\<forall>v. elements (fst (validateSetup h setup)) v = elements h v)"
    using backfillVersion_cases [of h "setup"]
    by (cases "setup") (auto simp: validateSetup_store getProp_setField elements_setField)
  have version: "a < length h \<longrightarrow>
      getProp (fst (validateSetup h (Ref a))) (Ref a) ''version'' =
        Some (if truthy (ownProp (props (h ! a)) ''version'')
              then ownProp (props (h ! a)) ''version'' else Str ''1.0'')"
    using validateSetup_version [of a h] by blast
  have fill: "fst (validateSetup h (Ref a)) = h[a := Obj (ps @ [(''version'', Str ''1.0'')])]
      \<and> snd (validateSetup h (Ref a)) =
          snd (validateSetup (h[a := Obj (ps @ [(''version'', Str ''1.0'')])]) (Ref a))"
    if a: "a < length h" "h ! a = Obj ps" "map_of ps ''version'' = None"
  proof -
    have "\<not> truthy (ownProp (props (h ! a)) ''version'')"
      using a by (simp add: ownProp_def)
    from validateSetup_overwrite [OF a(1) this] show ?thesis
      using a by (simp add: update_absent)
  qed
  have over: "fst (validateSetup h (Ref a)) = h[a := Obj (AList.update ''version'' (Str ''1.0'') ps)]
      \<and> snd (validateSetup h (Ref a)) =
          snd (validateSetup (h[a := Obj (AList.update ''version'' (Str ''1.0'') ps)]) (Ref a))"
    if a: "a < length h" "h ! a = Obj ps" "map_of ps ''version'' = Some x" "\<not> truthy x"
  proof -
    have "\<not> truthy (ownProp (props (h ! a)) ''version'')"
      using a by (simp add: ownProp_def)
    from validateSetup_overwrite [OF a(1) this] show ?thesis
      using a by simp
  qed
  show ?thesis using keep only frame version fill over by blast
qed

theorem validateSetup_backfill_witness:
  "validateSetup legacyDoc (Ref 0) =
     (legacyDoc[0 := Obj [(''system'', Ref 1), (''homebrew'', Ref 2), (''version'', Str ''1.0'')]],
      Some \<lparr>valid = True, errors = []\<rparr>)
   \<and> getProp (fst (validateSetup legacyDoc (Ref 0))) (Ref 0) ''version'' = Some (Str ''1.0'')
   \<and> fst (validateSetup legacyDoc (Ref 0)) ! 1 = legacyDoc ! 1
   \<and> getProp (fst (validateSetup legacyDoc (Ref 0))) (Ref 0) ''system'' = Some (Ref 1)
   \<and> validateSetup emptyVersionDoc (Ref 0) =
       (emptyVersionDoc[0 := Obj [(''version'', Str ''1.0''), (''system'', Ref 1),
                                  (''homebrew'', Ref 2)]],
        Some \<lparr>valid = True, errors = []\<rparr>)
   \<and> getProp namedCaskDoc (Ref 0) ''version'' = Some (Str ''2.0'')
   \<and> fst (validateSetup namedCaskDoc (Ref 0)) = namedCaskDoc"
proof -
  let ?ps = "[(''system'', Ref 1), (''homebrew'', Ref 2)]"
  let ?qs = "[(''version'', Str ''''), (''system'', Ref 1), (''homebrew'', Ref 2)]"
  have 1: "0 < length legacyDoc \<and> legacyDoc ! 0 = Obj ?ps \<and> map_of ?ps ''version'' = None"
    by (simp add: legacyDoc_def)
  have 2: "snd (validateSetup (legacyDoc[0 := Obj (?ps @ [(''version'', Str ''1.0'')])]) (Ref 0))
       = Some \<lparr>valid = True, errors = []\<rparr>"
    by code_simp
  have 3: "Ref 1 \<noteq> Ref 0" "''system'' \<noteq> ''version''"
    "getProp legacyDoc (Ref 0) ''system'' = Some (Ref 1)"
    by (simp_all add: legacyDoc_def ownProp_def)
  have 4: "getProp namedCaskDoc (Ref 0) ''version'' = Some (Str ''2.0'') \<and> truthy (Str ''2.0'')"
    by (simp add: namedCaskDoc_def ownProp_def)
  have 5: "0 < length emptyVersionDoc \<and> emptyVersionDoc ! 0 = Obj ?qs
       \<and> map_of ?qs ''version'' = Some (Str '''') \<and> \<not> truthy (Str '''')"
    by (simp add: emptyVersionDoc_def)
  have 6: "snd (validateSetup
       (emptyVersionDoc[0 := Obj (AList.update ''version'' (Str ''1.0'') ?qs)]) (Ref 0))
       = Some \<lparr>valid = True, errors = []\<rparr>"
    by code_simp
  have legacy: "validateSetup legacyDoc (Ref 0) =
     (legacyDoc[0 := Obj [(''system'', Ref 1), (''homebrew'', Ref 2), (''version'', Str ''1.0'')]],
      Some \<lparr>valid = True, errors = []\<rparr>)
   \<and> getProp (fst (validateSetup legacyDoc (Ref 0))) (Ref 0) ''version'' = Some (Str ''1.0'')
   \<and> fst (validateSetup legacyDoc (Ref 0)) ! 1 = legacyDoc ! 1
   \<and> getProp (fst (validateSetup legacyDoc (Ref 0))) (Ref 0) ''system'' = Some (Ref 1)"
    using 1 2 3 validateSetup_backfill [of 0 legacyDoc ?ps _ "Ref 0"]
    by (simp add: prod_eq_iff ownProp_def)
  have empty: "validateSetup emptyVersionDoc (Ref 0) =
       (emptyVersionDoc[0 := Obj [(''version'', Str ''1.0''), (''system'', Ref 1),
                                  (''homebrew'', Ref 2)]],
        Some \<lparr>valid = True, errors = []\<rparr>)"
    using 5 6 validateSetup_backfill [of 0 emptyVersionDoc ?qs "Str ''''" "Ref 0"]
    by (simp add: prod_eq_iff)
  have named: "fst (validateSetup namedCaskDoc (Ref 0)) = namedCaskDoc"
    using 4 validateSetup_backfill [of 0 namedCaskDoc "[]" _ "Ref 0" "Str ''2.0''"] by blast
  show ?thesis
    using legacy empty named 4 by blast
qed

subsection \<open>Entries of casks and formulae\<close>

lemma checkNames_all_named:
  "list_all (\<lambda>e. fieldTruthy h e ''name'') es \<Longrightarrow> checkNames h kind es idx errs = Some errs"
  by (induction es arbitrary: idx) (auto simp: fieldTruthy_def split: option.splits)

lemma backfillVersion_defined:
  "getProp h setup k = Some v \<Longrightarrow> \<exists>h'. backfillVersion h setup = Some h'"
  by (cases "setup") (auto simp: backfillVersion_def)

lemma validateSystem_ok:
  assumes "getProp h setup ''system'' = Some system" "truthy system"
    "fieldTruthy h system ''hostname''" "fieldTruthy h system ''macosVersion''"
    "fieldTruthy h system ''captureDate''"
  shows "validateSystem h setup errs = Some errs"
  using assms by (auto simp: validateSystem_def fieldTruthy_def split: option.splits)

lemma checkEntries_ok:
  assumes "getProp h homebrew k = Some arr" "entriesNamed h homebrew k"
  shows "checkEntries h kind arr errs = Some errs"
  using assms by (auto simp: checkEntries_def entriesNamed_def checkNames_all_named split: option.splits)

lemma validateHomebrew_ok:
  assumes "getProp h setup ''homebrew'' = Some homebrew" "truthy homebrew"
    "fieldIsArray h homebrew ''taps''" "fieldIsArray h homebrew ''casks''"
    "fieldIsArray h homebrew ''formulae''"
    "entriesNamed h homebrew ''casks''" "entriesNamed h homebrew ''formulae''"
  shows "validateHomebrew h setup errs = Some errs"
proof -
  obtain taps casks formulae where g:
    "getProp h homebrew ''taps'' = Some taps" "isArray h taps"
    "getProp h homebrew ''casks'' = Some casks" "isArray h casks"
    "getProp h homebrew ''formulae'' = Some formulae" "isArray h formulae"
    using assms(3-5) by (auto simp: fieldIsArray_def split: option.splits)
  show ?thesis
    using assms(1,2) g checkEntries_ok [OF g(3) assms(6)] checkEntries_ok [OF g(5) assms(7)]
    by (simp add: validateHomebrew_def)
qed

lemma validateArrayField_ok:
  "fieldOptArray h setup field \<Longrightarrow> validateArrayField h setup field errs = Some errs"
  by (auto simp: validateArrayField_def fieldOptArray_def split: option.splits)

lemma checkManagers_ok:
  "list_all (fieldOptArray h g) ms \<Longrightarrow> checkManagers h g ms errs = Some errs"
  by (induction ms) (auto simp: fieldOptArray_def split: option.splits)

lemma runChecks_ok:
  assumes "otherwiseConforming h setup" "homebrewEntriesNamed h setup"
  shows "runChecks h setup = Some []"
proof -
  obtain system where s: "getProp h setup ''system'' = Some system" "truthy system"
    "fieldTruthy h system ''hostname''" "fieldTruthy h system ''macosVersion''"
    "fieldTruthy h system ''captureDate''"
    using assms(1) by (auto simp: otherwiseConforming_def split: option.splits)
  obtain homebrew where b: "getProp h setup ''homebrew'' = Some homebrew" "truthy homebrew"
    "fieldIsArray h homebrew ''taps''" "fieldIsArray h homebrew ''casks''"
    "fieldIsArray h homebrew ''formulae''"
    using assms(1) by (auto simp: otherwiseConforming_def split: option.splits)
  have e: "entriesNamed h homebrew ''casks''" "entriesNamed h homebrew ''formulae''"
    using assms(2) b(1) by (simp_all add: homebrewEntriesNamed_def)
  have f: "fieldOptArray h setup ''applications''" "fieldOptArray h setup ''shellConfigs''"
    "fieldOptArray h setup ''githubRepos''"
    using assms(1) by (simp_all add: otherwiseConforming_def)
  have g: "validateGlobalPackages h setup [] = Some []"
    using assms(1) checkManagers_ok [of h _ "[''npm'', ''bun'', ''dart'', ''ruby'']" "[]"]
    by (auto simp: otherwiseConforming_def validateGlobalPackages_def split: option.splits)
  have c: "validateGitConfig h setup [] = Some []"
    using assms(1)
    by (auto simp: otherwiseConforming_def validateGitConfig_def fieldOptArray_def
        split: option.splits)
  show ?thesis
    by (simp add: runChecks_def validateSystem_ok [OF s] validateHomebrew_ok [OF b e]
        validateArrayField_ok [OF f(1)] validateArrayField_ok [OF f(2)]
        validateArrayField_ok [OF f(3)] g c)
qed

lemma checkNames_mono:
  "checkNames h kind es idx errs = Some errs' \<Longrightarrow> set errs \<subseteq> set errs'"
proof (induction es arbitrary: idx errs)
  case Nil
  then show ?case by simp
next
  case (Cons e es)
  then show ?case
    by (auto split: Option.bind_splits if_splits) fastforce+
qed

lemma checkNames_reports:
  "checkNames h kind es idx errs = Some errs' \<Longrightarrow> i < length es \<Longrightarrow>
   getProp h (es ! i) ''name'' = Some n \<Longrightarrow> \<not> truthy n \<Longrightarrow>
   missingName kind (idx + i) \<in> set errs'"
proof (induction es arbitrary: idx errs i)
  case Nil
  then show ?case by simp
next
  case (Cons e es)
  show ?case
  proof (cases i)
    case 0
    then have "checkNames h kind es (Suc idx) (errs @ [missingName kind idx]) = Some errs'"
      using Cons.prems by simp
    then show ?thesis
      using 0 checkNames_mono by fastforce
  next
    case (Suc j)
    then show ?thesis
      using Cons.prems Cons.IH [of "Suc idx" _ j]
      by (auto split: Option.bind_splits)
  qed
qed

lemma checkEntries_mono:
  "checkEntries h kind arr errs = Some errs' \<Longrightarrow> set errs \<subseteq> set errs'"
  by (auto simp: checkEntries_def dest: checkNames_mono split: Option.bind_splits if_splits)

lemma validateArrayField_mono:
  "validateArrayField h setup field errs = Some errs' \<Longrightarrow> set errs \<subseteq> set errs'"
  by (auto simp: validateArrayField_def split: Option.bind_splits if_splits)

lemma checkManagers_mono:
  "checkManagers h g ms errs = Some errs' \<Longrightarrow> set errs \<subseteq> set errs'"
proof (induction ms arbitrary: errs)
  case Nil
  then show ?case by simp
next
  case (Cons m ms)
  then show ?case
    by (auto split: Option.bind_splits if_splits) fastforce+
qed

lemma validateGlobalPackages_mono:
  "validateGlobalPackages h setup errs = Some errs' \<Longrightarrow> set errs \<subseteq> set errs'"
  by (auto simp: validateGlobalPackages_def dest: checkManagers_mono
      split: Option.bind_splits if_splits)

lemma validateGitConfig_mono:
  "validateGitConfig h setup errs = Some errs' \<Longrightarrow> set errs \<subseteq> set errs'"
  by (auto simp: validateGitConfig_def Let_def split: Option.bind_splits if_splits)

lemma after_homebrew_mono:
  assumes "runChecks h setup = Some errs"
  shows "\<exists>e1 e2. validateSystem h setup [] = Some e1 \<and> validateHomebrew h setup e1 = Some e2
           \<and> set e2 \<subseteq> set errs"
proof -
  obtain e1 e2 e3 e4 e5 e6 where c:
    "validateSystem h setup [] = Some e1" "validateHomebrew h setup e1 = Some e2"
    "validateArrayField h setup ''applications'' e2 = Some e3"
    "validateGlobalPackages h setup e3 = Some e4"
    "validateArrayField h setup ''shellConfigs'' e4 = Some e5"
    "validateGitConfig h setup e5 = Some e6"
    "validateArrayField h setup ''githubRepos'' e6 = Some errs"
    using assms by (auto simp: runChecks_def split: Option.bind_splits)
  have "set e2 \<subseteq> set errs"
    using validateArrayField_mono [OF c(3)] validateGlobalPackages_mono [OF c(4)]
      validateArrayField_mono [OF c(5)] validateGitConfig_mono [OF c(6)]
      validateArrayField_mono [OF c(7)]
    by blast
  then show ?thesis using c(1,2) by blast
qed

lemma getProp_Ref_receiver: "getProp h v k = Some (Ref b) \<Longrightarrow> truthy v"
  by (cases v) auto

lemma elements_isArray: "elements h arr = Some es \<Longrightarrow> isArray h arr"
  by (cases arr) (auto split: if_splits cell.splits)

lemma elements_Ref: "elements h arr = Some es \<Longrightarrow> \<exists>b. arr = Ref b"
  by (cases arr) auto

lemma validateHomebrew_reports:
  assumes "validateHomebrew h setup errs = Some errs'"
    and "getProp h setup ''homebrew'' = Some homebrew"
    and "getProp h homebrew ''casks'' = Some casks"
    and "getProp h homebrew ''formulae'' = Some formulae"
  shows "(elements h casks = Some es \<and> i < length es \<and> getProp h (es ! i) ''name'' = Some n
            \<and> \<not> truthy n \<longrightarrow>
          missingName ''cask'' i \<in> set errs')
       \<and> (elements h formulae = Some es \<and> i < length es \<and> getProp h (es ! i) ''name'' = Some n
            \<and> \<not> truthy n \<longrightarrow>
          missingName ''formula'' i \<in> set errs')"
proof (intro conjI impI)
  assume a: "elements h casks = Some es \<and> i < length es \<and> getProp h (es ! i) ''name'' = Some n
            \<and> \<not> truthy n"
  then have t: "truthy homebrew" "isArray h casks"
    using assms(3) elements_Ref [of h casks es] getProp_Ref_receiver [of h homebrew]
      elements_isArray [of h casks es] by auto
  then obtain e0 e1 where c: "checkNames h ''cask'' es 0 e0 = Some e1"
    "checkEntries h ''formula'' formulae e1 = Some errs'"
    using assms a by (auto simp: validateHomebrew_def checkEntries_def Let_def split: Option.bind_splits if_splits)
  show "missingName ''cask'' i \<in> set errs'"
    using checkNames_reports [OF c(1), of i n] checkEntries_mono [OF c(2)] a by auto
next
  assume a: "elements h formulae = Some es \<and> i < length es \<and> getProp h (es ! i) ''name'' = Some n
            \<and> \<not> truthy n"
  then have t: "truthy homebrew" "isArray h formulae"
    using assms(4) elements_Ref [of h formulae es] getProp_Ref_receiver [of h homebrew]
      elements_isArray [of h formulae es] by auto
  then obtain e0 where c: "checkNames h ''formula'' es 0 e0 = Some errs'"
    using assms a by (auto simp: validateHomebrew_def checkEntries_def Let_def split: Option.bind_splits if_splits)
  show "missingName ''formula'' i \<in> set errs'"
    using checkNames_reports [OF c(1), of i n] a by auto
qed

lemma getProp_other: "getProp h v k = Some x \<Longrightarrow> \<exists>y. getProp h v k' = Some y"
  by (cases v) auto

lemma validateSetup_returns:
  assumes "snd (validateSetup h setup) = Some r"
  shows "\<exists>errs. runChecks h setup = Some errs \<and> r = \<lparr>valid = (errs = []), errors = errs\<rparr>"
proof (cases "backfillVersion h setup")
  case None
  then show ?thesis using assms by (simp add: validateSetup_def)
next
  case (Some h')
  then show ?thesis using assms by (auto simp: validateSetup_result)
qed

lemma string_entry_reported:
  assumes "k = ''casks'' \<and> kind = ''cask'' \<or> k = ''formulae'' \<and> kind = ''formula''"
    and "path h setup [''homebrew'', k] = Some arr" and "elements h arr = Some es"
    and "i < length es" and "es ! i = Str s" and "snd (validateSetup h setup) = Some r"
  shows "missingName kind i \<in> set (errors r) \<and> \<not> valid r"
proof -
  obtain errs where r: "runChecks h setup = Some errs" "r = \<lparr>valid = (errs = []), errors = errs\<rparr>"
    using validateSetup_returns [OF assms(6)] by blast
  obtain e1 e2 where e: "validateHomebrew h setup e1 = Some e2" "set e2 \<subseteq> set errs"
    using after_homebrew_mono [OF r(1)] by blast
  obtain homebrew where b: "getProp h setup ''homebrew'' = Some homebrew"
    "getProp h homebrew k = Some arr"
    using assms(2) by (auto split: Option.bind_splits)
  obtain casks formulae where c: "getProp h homebrew ''casks'' = Some casks"
    "getProp h homebrew ''formulae'' = Some formulae"
    using getProp_other [OF b(2)] by blast
  have n: "getProp h (es ! i) ''name'' = Some Undefined" "\<not> truthy Undefined"
    using assms(5) by simp_all
  have "missingName kind i \<in> set e2"
    using validateHomebrew_reports [OF e(1) b(1) c, of es i Undefined] assms(1,3,4) b(2) c n
    by auto
  then show ?thesis using e(2) r(2) by auto
qed

text \<open>
  Claim C2, the counterexample. The document \<open>stringCaskDoc\<close> passes every other check and
  its only cask is the bare string \<^verbatim>\<open>"firefox"\<close>; \<open>validateSetup\<close> reports it invalid,
  with the indexed error for that entry.
\<close>

theorem validateSetup_string_entry_counterexample:
  "otherwiseConforming stringCaskDoc (Ref 0)
   \<and> path stringCaskDoc (Ref 0) [''homebrew'', ''casks''] = Some (Ref 4)
   \<and> elements stringCaskDoc (Ref 4) = Some [Str ''firefox'']
   \<and> validateSetup stringCaskDoc (Ref 0) =
       (stringCaskDoc,
        Some \<lparr>valid = False, errors = [''Invalid cask at index 0: missing 'name' field'']\<rparr>)"
  by code_simp

text \<open>
  Claim C2, amended. A document that passes every other check and whose casks and formulae
  all expose a truthy \<^verbatim>\<open>name\<close> property is reported valid, with no error. A bare string
  among the casks or formulae is not accepted: whenever \<open>validateSetup\<close> returns, the result
  is invalid and holds the message \<^verbatim>\<open>Invalid cask at index i: missing 'name' field\<close>
  (or \<^verbatim>\<open>Invalid formula ...\<close>) for the index of that entry.
\<close>

theorem validateSetup_entries:
  "(otherwiseConforming h setup \<and> homebrewEntriesNamed h setup \<longrightarrow>
      snd (validateSetup h setup) = Some \<lparr>valid = True, errors = []\<rparr>)
   \<and> ((k = ''casks'' \<and> kind = ''cask'' \<or> k = ''formulae'' \<and> kind = ''formula'')
       \<and> path h setup [''homebrew'', k] = Some arr \<and> elements h arr = Some es
       \<and> i < length es \<and> es ! i = Str s \<and> snd (validateSetup h setup) = Some r \<longrightarrow>
      missingName kind i \<in> set (errors r) \<and> \<not> valid r)"
proof (intro conjI impI)
  assume a: "otherwiseConforming h setup \<and> homebrewEntriesNamed h setup"
  then have "getProp h setup ''system'' \<noteq> None"
    by (auto simp: otherwiseConforming_def split: option.splits)
  then obtain h' where "backfillVersion h setup = Some h'"
    using backfillVersion_defined by blast
  then show "snd (validateSetup h setup) = Some \<lparr>valid = True, errors = []\<rparr>"
    using a by (simp add: validateSetup_result runChecks_ok)
next
  assume "(k = ''casks'' \<and> kind = ''cask'' \<or> k = ''formulae'' \<and> kind = ''formula'')
       \<and> path h setup [''homebrew'', k] = Some arr \<and> elements h arr = Some es
       \<and> i < length es \<and> es ! i = Str s \<and> snd (validateSetup h setup) = Some r"
  then show "missingName kind i \<in> set (errors r)" "\<not> valid r"
    using string_entry_reported [of k kind h "setup" arr es i s r] by blast+
qed

theorem validateSetup_entries_witness:
  "otherwiseConforming namedCaskDoc (Ref 0) \<and> homebrewEntriesNamed namedCaskDoc (Ref 0)
   \<and> snd (validateSetup namedCaskDoc (Ref 0)) = Some \<lparr>valid = True, errors = []\<rparr>
   \<and> path stringCaskDoc (Ref 0) [''homebrew'', ''casks''] = Some (Ref 4)
   \<and> elements stringCaskDoc (Ref 4) = Some [Str ''firefox'']
   \<and> snd (validateSetup stringCaskDoc (Ref 0)) =
       Some \<lparr>valid = False, errors = [missingName ''cask'' 0]\<rparr>
   \<and> missingName ''cask'' 0 \<in> set [missingName ''cask'' 0]"
proof -
  have 1: "otherwiseConforming namedCaskDoc (Ref 0) \<and> homebrewEntriesNamed namedCaskDoc (Ref 0)"
    by code_simp
  have 2: "path stringCaskDoc (Ref 0) [''homebrew'', ''casks''] = Some (Ref 4)
     \<and> elements stringCaskDoc (Ref 4) = Some [Str ''firefox'']
     \<and> snd (validateSetup stringCaskDoc (Ref 0)) =
         Some \<lparr>valid = False, errors = [missingName ''cask'' 0]\<rparr>"
    by code_simp
  show ?thesis
    using 1 2
      validateSetup_entries [of namedCaskDoc "Ref 0" "''casks''" "''cask''" "Ref 4"
        "[Str ''firefox'']" 0 "''firefox''" "\<lparr>valid = False, errors = [missingName ''cask'' 0]\<rparr>"]
      validateSetup_entries [of stringCaskDoc "Ref 0" "''casks''" "''cask''" "Ref 4"
        "[Str ''firefox'']" 0 "''firefox''" "\<lparr>valid = False, errors = [missingName ''cask'' 0]\<rparr>"]
    by simp
qed

text \<open>
  Claim C5, the failing input. The only cask of \<open>nullCaskDoc\<close> is \<^verbatim>\<open>null\<close>: the read
  \<^verbatim>\<open>cask.name\<close> of line 54 throws, so \<open>validateSetup\<close> returns no result and no error list.
\<close>

theorem validateSetup_null_entry_throws:
  "snd (validateSetup nullCaskDoc (Ref 0)) = None"
  by code_simp

section \<open>Properties of createEmptySetup\<close>

text \<open>
  Claim C9. \<^verbatim>\<open>toISOString\<close> returns a string of 24 or 27 characters; for every such
  string that is not empty, and on every store, validating the document that
  \<open>createEmptySetup\<close> builds gives \<^verbatim>\<open>valid = true\<close> with no error and leaves the store as it
  was: there is no backfill, the version of the document being \<open>SCHEMA_VERSION\<close>.
\<close>

theorem validateSetup_createEmptySetup:
  assumes "now \<noteq> []"
  shows "validateSetup (fst (createEmptySetup h now)) (snd (createEmptySetup h now)) =
           (fst (createEmptySetup h now), Some \<lparr>valid = True, errors = []\<rparr>)
         \<and> getProp (fst (createEmptySetup h now)) (snd (createEmptySetup h now)) ''version'' =
             Some (Str SCHEMA_VERSION)"
  using assms
  by (simp add: createEmptySetup_def emptySetupCells_def validateSetup_def backfillVersion_def
      runChecks_def validateSystem_def validateHomebrew_def validateArrayField_def
      validateGlobalPackages_def validateGitConfig_def checkEntries_def
      ownProp_def SCHEMA_VERSION_def nth_append)

theorem validateSetup_createEmptySetup_witness:
  "''2024-01-01T00:00:00.000Z'' \<noteq> []
   \<and> validateSetup (fst (createEmptySetup [] ''2024-01-01T00:00:00.000Z'')) (Ref 0) =
       (fst (createEmptySetup [] ''2024-01-01T00:00:00.000Z''),
        Some \<lparr>valid = True, errors = []\<rparr>)"
  using validateSetup_createEmptySetup [of "''2024-01-01T00:00:00.000Z''" "[]"]
  by (simp add: createEmptySetup_def)

section \<open>Properties of isCompatibleVersion\<close>

lemma firstOf_split: "firstOf (split c s) = Str (takeWhile (\<lambda>x. x \<noteq> c) s)"
  by (induction s) (auto split: list.splits)

lemma firstOf_split_dot: "firstOf (split CHR ''.'' s) = Str (beforeDot s)"
  by (simp add: firstOf_split beforeDot_def)

text \<open>
  Claim C4, the counterexample. The document \<^verbatim>\<open>{version: ""}\<close> has a version string whose
  text before the first dot is empty, not \<^verbatim>\<open>"2"\<close>; the test of line 163 takes the empty
  string for a missing version and the function returns \<^verbatim>\<open>true\<close>.
\<close>

theorem isCompatibleVersion_empty_string_counterexample:
  "getProp [Obj [(''version'', Str '''')]] (Ref 0) ''version'' = Some (Str '''')
   \<and> isCompatibleVersion [Obj [(''version'', Str '''')]] (Ref 0) = Some True
   \<and> beforeDot '''' \<noteq> beforeDot SCHEMA_VERSION"
  by (simp add: isCompatibleVersion_def ownProp_def SCHEMA_VERSION_def beforeDot_def)

text \<open>
  Claim C4, amended. \<open>isCompatibleVersion\<close> returns \<^verbatim>\<open>true\<close> for a document with no
  \<^verbatim>\<open>version\<close> property; for a document whose version is a non-empty string it returns
  whether the text before the first dot of that string equals the text before the first dot
  of \<open>SCHEMA_VERSION\<close>: \<^verbatim>\<open>true\<close> for \<^verbatim>\<open>"2.0"\<close> and \<^verbatim>\<open>"2.1"\<close>, \<^verbatim>\<open>false\<close> for
  \<^verbatim>\<open>"3.0"\<close> and \<^verbatim>\<open>"1.0"\<close>. The empty version string is treated like a missing
  version: the function returns \<^verbatim>\<open>true\<close>.
\<close>

theorem isCompatibleVersion_major:
  "(getProp h setup ''version'' = Some Undefined \<longrightarrow> isCompatibleVersion h setup = Some True)
   \<and> (getProp h setup ''version'' = Some (Str '''') \<longrightarrow> isCompatibleVersion h setup = Some True)
   \<and> (getProp h setup ''version'' = Some (Str s) \<and> s \<noteq> [] \<longrightarrow>
        isCompatibleVersion h setup = Some (beforeDot s = beforeDot SCHEMA_VERSION))
   \<and> (getProp h setup ''version'' = Some (Str ''2.0'') \<longrightarrow> isCompatibleVersion h setup = Some True)
   \<and> (getProp h setup ''version'' = Some (Str ''2.1'') \<longrightarrow> isCompatibleVersion h setup = Some True)
   \<and> (getProp h setup ''version'' = Some (Str ''3.0'') \<longrightarrow> isCompatibleVersion h setup = Some False)
   \<and> (getProp h setup ''version'' = Some (Str ''1.0'') \<longrightarrow> isCompatibleVersion h setup = Some False)"
  by (simp add: isCompatibleVersion_def firstOf_split_dot) (simp add: SCHEMA_VERSION_def beforeDot_def)

theorem isCompatibleVersion_major_witness:
  "isCompatibleVersion [Obj [(''system'', Null)]] (Ref 0) = Some True
   \<and> isCompatibleVersion [Obj [(''version'', Str '''')]] (Ref 0) = Some True
   \<and> isCompatibleVersion [Obj [(''version'', Str ''2.1'')]] (Ref 0) = Some True
   \<and> isCompatibleVersion [Obj [(''version'', Str ''2.0'')]] (Ref 0) = Some True
   \<and> isCompatibleVersion [Obj [(''version'', Str ''3.0'')]] (Ref 0) = Some False
   \<and> isCompatibleVersion [Obj [(''version'', Str ''1.0'')]] (Ref 0) = Some False
   \<and> isCompatibleVersion [Obj [(''version'', Str ''10.2'')]] (Ref 0) = Some False"
  using isCompatibleVersion_major [of "[Obj [(''system'', Null)]]" "Ref 0" "''10.2''"]
    isCompatibleVersion_major [of "[Obj [(''version'', Str '''')]]" "Ref 0" "''10.2''"]
    isCompatibleVersion_major [of "[Obj [(''version'', Str ''2.1'')]]" "Ref 0" "''2.1''"]
    isCompatibleVersion_major [of "[Obj [(''version'', Str ''2.0'')]]" "Ref 0" "''2.0''"]
    isCompatibleVersion_major [of "[Obj [(''version'', Str ''3.0'')]]" "Ref 0" "''3.0''"]
    isCompatibleVersion_major [of "[Obj [(''version'', Str ''1.0'')]]" "Ref 0" "''1.0''"]
    isCompatibleVersion_major [of "[Obj [(''version'', Str ''10.2'')]]" "Ref 0" "''10.2''"]
  by (simp add: ownProp_def SCHEMA_VERSION_def beforeDot_def)

section \<open>Properties of diffSetups\<close>

subsection \<open>The cells of the report\<close>

lemma emptyDiffCells_reportCells: "emptyDiffCells n = reportCells n (\<lambda>k. [])"
  by (simp add: emptyDiffCells_def reportCells_def pkgDiffCells_def pkgCells_def)

lemma length_reportCells [simp]: "length (reportCells n f) = 28"
  by (simp add: reportCells_def pkgCells_def)

lemma reportCells_array:
  "k \<in> arrayOffsets \<Longrightarrow> reportCells n f ! k = Arr (f k) []"
  unfolding arrayOffsets_def reportCells_def pkgCells_def by auto

lemma reportCells_update:
  "k \<in> arrayOffsets \<Longrightarrow> (reportCells n f)[k := Arr xs []] = reportCells n (f(k := xs))"
  unfolding arrayOffsets_def reportCells_def pkgCells_def by auto

lemma arrayOffsets_less: "k \<in> arrayOffsets \<Longrightarrow> k < 28"
  unfolding arrayOffsets_def by auto

lemma homebrewOffsets_array: "k \<in> homebrewOffsets \<Longrightarrow> k \<in> arrayOffsets"
  unfolding arrayOffsets_def homebrewOffsets_def by auto

lemma push_report:
  assumes "k \<in> arrayOffsets"
  shows "push (hb @ reportCells (length hb) f @ U) (Ref (length hb + k)) x =
           Some (hb @ reportCells (length hb) (f(k := f k @ [x])) @ U)"
  using assms arrayOffsets_less [OF assms]
  by (simp add: nth_append list_update_append reportCells_array reportCells_update)

lemma elements_report:
  assumes "k \<in> arrayOffsets"
  shows "elements (hb @ reportCells (length hb) f @ U) (Ref (length hb + k)) = Some (f k)"
  using assms arrayOffsets_less [OF assms]
  by (simp add: nth_append reportCells_array)

lemma getProp_report:
  assumes "k < 28"
  shows "getProp (hb @ reportCells (length hb) f @ U) (Ref (length hb + k)) key =
           Some (ownProp (props (reportCells (length hb) f ! k)) key)"
  using assms by (simp add: nth_append)

lemma path_applications:
  "fld = ''added'' \<and> k = 2 \<or> fld = ''removed'' \<and> k = 3 \<or> fld = ''updated'' \<and> k = 4 \<Longrightarrow>
   path (hb @ reportCells (length hb) f @ U) (Ref (length hb)) [''applications'', fld] =
     Some (Ref (length hb + k))"
  using getProp_report [of 0 hb f U] getProp_report [of 1 hb f U]
  by (auto simp: reportCells_def ownProp_def)

lemma path_homebrew:
  "path (hb @ reportCells (length hb) f @ U) (Ref (length hb)) [''homebrew'', category, fld] = Some v
   \<Longrightarrow> v = Undefined \<or> (\<exists>k \<in> homebrewOffsets. v = Ref (length hb + k))"
  using getProp_report [of 0 hb f U] getProp_report [of 5 hb f U]
    getProp_report [of 6 hb f U] getProp_report [of 9 hb f U] getProp_report [of 12 hb f U]
  by (auto simp: reportCells_def pkgCells_def ownProp_def homebrewOffsets_def
      split: if_splits)

lemma pushInto_applications:
  assumes "fld = ''added'' \<and> k = 2 \<or> fld = ''removed'' \<and> k = 3 \<or> fld = ''updated'' \<and> k = 4"
  shows "pushInto (hb @ reportCells (length hb) f @ U) (Ref (length hb)) [''applications'', fld] x =
     Some (hb @ reportCells (length hb) (f(k := f k @ [x])) @ U)"
proof -
  have "k \<in> arrayOffsets"
    using assms by (auto simp: arrayOffsets_def)
  then show ?thesis
    unfolding pushInto_def path_applications [OF assms] by (simp add: push_report del: push.simps)
qed

lemma homebrew_push:
  assumes "do { arr \<leftarrow> path (hb @ reportCells (length hb) f @ U) (Ref (length hb))
                         [''homebrew'', category, fld];
                x \<leftarrow> lbl;
                push (hb @ reportCells (length hb) f @ U) arr x } = Some S"
  shows "\<exists>k \<in> homebrewOffsets. \<exists>x. S = hb @ reportCells (length hb) (f(k := f k @ [x])) @ U"
proof -
  obtain arr x where a:
    "path (hb @ reportCells (length hb) f @ U) (Ref (length hb)) [''homebrew'', category, fld]
       = Some arr"
    "push (hb @ reportCells (length hb) f @ U) arr x = Some S"
    using assms by (auto split: Option.bind_splits)
  from path_homebrew [OF a(1)] a(2) obtain k where k: "k \<in> homebrewOffsets"
    "arr = Ref (length hb + k)"
    by auto
  then show ?thesis
    using a(2) push_report [OF homebrewOffsets_array [OF k(1)], of hb f U x] by auto
qed


subsection \<open>Statements that keep the shape of the store\<close>

lemma reportShape_refl: "reportShape hb f U (hb @ reportCells (length hb) f @ U)"
  unfolding reportShape_def by (rule exI [of _ f], rule exI [of _ "[]"]) simp

lemma reportShape_step:
  assumes "\<forall>k. k \<in> homebrewOffsets \<or> g k = f k"
    and "reportShape hb g (U @ V) S"
  shows "reportShape hb f U S"
proof -
  obtain g' V' where g': "S = hb @ reportCells (length hb) g' @ (U @ V) @ V'"
    "\<forall>k. k \<in> homebrewOffsets \<or> g' k = g k"
    using assms(2) unfolding reportShape_def by blast
  have "\<forall>k. k \<in> homebrewOffsets \<or> g' k = f k"
    using g'(2) assms(1) by metis
  then show ?thesis
    unfolding reportShape_def using g'(1)
    by (intro exI [of _ g'] exI [of _ "V @ V'"]) simp
qed

lemma reportShape_homebrew:
  assumes "k \<in> homebrewOffsets" "reportShape hb (f(k := xs)) U S"
  shows "reportShape hb f U S"
proof -
  have "\<forall>j. j \<in> homebrewOffsets \<or> (f(k := xs)) j = f j"
    using assms(1) by auto
  then show ?thesis
    using reportShape_step [of "f(k := xs)" f hb U "[]" S] assms(2) by simp
qed

lemma pkgLoop_shape:
  "reportShape hb f U
     (fst (pkgLoop (Ref (length hb)) category fld others pkgs
             (hb @ reportCells (length hb) f @ U)))"
proof (induction pkgs arbitrary: f)
  case Nil
  show ?case by (simp add: reportShape_refl)
next
  case (Cons pkg pkgs)
  let ?S = "hb @ reportCells (length hb) f @ U"
  show ?case
  proof (cases "pkgName ?S pkg")
    case None
    then show ?thesis by (simp add: reportShape_refl)
  next
    case (Some name)
    show ?thesis
    proof (cases "setHas others name")
      case True
      then show ?thesis using Some Cons.IH [of f] by simp
    next
      case False
      show ?thesis
      proof (cases "do { arr \<leftarrow> path ?S (Ref (length hb)) [''homebrew'', category, fld];
                         x \<leftarrow> pkgLabel ?S pkg;
                         push ?S arr x }")
        case None
        then show ?thesis using Some False by (simp add: reportShape_refl)
      next
        case (Some S')
        from homebrew_push [OF Some] obtain k x where k: "k \<in> homebrewOffsets"
          "S' = hb @ reportCells (length hb) (f(k := f k @ [x])) @ U"
          by blast
        have "reportShape hb f U
                (fst (pkgLoop (Ref (length hb)) category fld others pkgs S'))"
          unfolding k(2) by (rule reportShape_homebrew [OF k(1) Cons.IH])
        then show ?thesis
          using \<open>pkgName ?S pkg = Some name\<close> False Some by simp
      qed
    qed
  qed
qed

lemma fst_andThen:
  "fst (andThen r k) = (case snd r of None \<Rightarrow> fst r | Some u \<Rightarrow> fst (k (fst r)))"
  by (cases r) (auto simp: andThen_def split: option.splits)

lemma andThen_shape:
  assumes "reportShape hb f U (fst r)"
    and "\<And>g V. reportShape hb g (U @ V) (fst (k (hb @ reportCells (length hb) g @ U @ V)))"
  shows "reportShape hb f U (fst (andThen r k))"
proof (cases "snd r")
  case None
  then show ?thesis using assms(1) by (simp add: fst_andThen)
next
  case (Some u)
  obtain g V where g: "fst r = hb @ reportCells (length hb) g @ U @ V"
    "\<forall>k. k \<in> homebrewOffsets \<or> g k = f k"
    using assms(1) unfolding reportShape_def by blast
  have "reportShape hb f U (fst (k (fst r)))"
    unfolding g(1) using reportShape_step [OF g(2) assms(2)] by simp
  then show ?thesis using Some by (simp add: fst_andThen)
qed

lemma comparePackages_shape:
  "reportShape hb f U
     (fst (comparePackages (Ref (length hb)) oldPkgs newPkgs category
             (hb @ reportCells (length hb) f @ U)))"
proof -
  let ?S = "hb @ reportCells (length hb) f @ U"
  show ?thesis
  proof (cases "do { olds \<leftarrow> elements ?S oldPkgs;
                     oldNames \<leftarrow> mapM (pkgName ?S) olds;
                     news \<leftarrow> elements ?S newPkgs;
                     newNames \<leftarrow> mapM (pkgName ?S) news;
                     Some (olds, makeSet oldNames, news, makeSet newNames) }")
    case None
    then show ?thesis by (simp add: comparePackages_def reportShape_refl)
  next
    case (Some t)
    obtain olds oldSet news newSet where t: "t = (olds, oldSet, news, newSet)"
      by (cases t) auto
    have "reportShape hb f U
            (fst (andThen (pkgLoop (Ref (length hb)) category ''added'' oldSet news ?S)
                    (pkgLoop (Ref (length hb)) category ''removed'' newSet olds)))"
      by (intro andThen_shape pkgLoop_shape)
    then show ?thesis using Some t by (simp add: comparePackages_def)
  qed
qed

lemma compareHomebrew_shape:
  "reportShape hb f U
     (fst (compareHomebrew (Ref (length hb)) oldSetup newSetup category
             (hb @ reportCells (length hb) f @ U)))"
  by (auto simp: compareHomebrew_def reportShape_refl comparePackages_shape
      split: option.splits)

lemma orEmpty_shape:
  "orEmpty (hb @ reportCells (length hb) f @ U) v = (S, w) \<Longrightarrow>
   \<exists>V. S = hb @ reportCells (length hb) f @ U @ V"
  by (auto simp: orEmpty_def alloc_def split: if_splits)

lemma globalLoop_shape:
  "reportShape hb f U
     (fst (globalLoop (Ref (length hb)) oldSetup newSetup managers
             (hb @ reportCells (length hb) f @ U)))"
proof (induction managers arbitrary: f U)
  case Nil
  show ?case by (simp add: reportShape_refl)
next
  case (Cons manager managers)
  let ?S = "hb @ reportCells (length hb) f @ U"
  show ?case
  proof (cases "do { oldGlobal \<leftarrow> getProp ?S oldSetup ''globalPackages'';
                     getProp ?S oldGlobal manager }")
    case None
    then show ?thesis by (simp add: reportShape_refl)
  next
    case ov: (Some ov)
    obtain S1 oldPkgs where o1: "orEmpty ?S ov = (S1, oldPkgs)"
      by (cases "orEmpty ?S ov") auto
    obtain V1 where S1: "S1 = hb @ reportCells (length hb) f @ (U @ V1)"
      using orEmpty_shape [OF o1] by auto
    show ?thesis
    proof (cases "do { newGlobal \<leftarrow> getProp S1 newSetup ''globalPackages'';
                       getProp S1 newGlobal manager }")
      case None
      have "reportShape hb f U S1"
        unfolding S1 using reportShape_step [OF _ reportShape_refl, of f f hb U V1] by simp
      then show ?thesis using ov o1 None by simp
    next
      case nv: (Some nv)
      obtain S2 newPkgs where o2: "orEmpty S1 nv = (S2, newPkgs)"
        by (cases "orEmpty S1 nv") auto
      obtain V2 where S2: "S2 = hb @ reportCells (length hb) f @ (U @ V1 @ V2)"
        using orEmpty_shape [of hb f "U @ V1" nv S2 newPkgs] o2 S1 by auto
      obtain S3 r where c: "comparePackages (Ref (length hb)) oldPkgs newPkgs manager S2 = (S3, r)"
        by (cases "comparePackages (Ref (length hb)) oldPkgs newPkgs manager S2") auto
      have "reportShape hb f (U @ V1 @ V2) S3"
        using comparePackages_shape [of hb f "U @ V1 @ V2" oldPkgs newPkgs manager] c S2
        by simp
      then obtain g V3 where S3: "S3 = hb @ reportCells (length hb) g @ (U @ V1 @ V2 @ V3)"
        "\<forall>k. k \<in> homebrewOffsets \<or> g k = f k"
        unfolding reportShape_def by auto
      have sh3: "reportShape hb f U S3"
        unfolding S3(1)
        using reportShape_step [OF S3(2) reportShape_refl, of hb U "V1 @ V2 @ V3"] by simp
      show ?thesis
      proof (cases r)
        case None
        then show ?thesis using ov o1 nv o2 c sh3 by simp
      next
        case (Some u)
        have "reportShape hb f U
                (fst (globalLoop (Ref (length hb)) oldSetup newSetup managers S3))"
          unfolding S3(1)
          using reportShape_step [OF S3(2) Cons.IH [of g "U @ V1 @ V2 @ V3"]] by simp
        then show ?thesis using ov o1 nv o2 c Some by simp
      qed
    qed
  qed
qed


lemma compareAllHomebrew_shape:
  "reportShape hb f U
     (fst (compareAllHomebrew (Ref (length hb)) oldSetup newSetup
             (hb @ reportCells (length hb) f @ U)))"
  unfolding compareAllHomebrew_def
  by (intro andThen_shape compareHomebrew_shape)

subsection \<open>The loops over the applications\<close>

lemma newAppsLoop_ext:
  "\<exists>g V. fst (newAppsLoop (Ref (length hb)) oldApps ents (hb @ reportCells (length hb) f @ U))
          = hb @ reportCells (length hb) g @ U @ V"
proof (induction ents arbitrary: f U)
  case Nil
  have "\<exists>g V. hb @ reportCells (length hb) f @ U = hb @ reportCells (length hb) g @ U @ V"
    by (rule exI [of _ f], rule exI [of _ "[]"]) simp
  then show ?case by simp
next
  case (Cons e ents)
  obtain name app where e: "e = (name, app)" by (cases e) auto
  let ?S = "hb @ reportCells (length hb) f @ U"
  have here: "\<exists>g V. ?S = hb @ reportCells (length hb) g @ U @ V"
    by (rule exI [of _ f], rule exI [of _ "[]"]) simp
  show ?case
  proof (cases "mapHas oldApps name")
    case False
    then have "newAppsLoop (Ref (length hb)) oldApps (e # ents) ?S =
        newAppsLoop (Ref (length hb)) oldApps ents
          (hb @ reportCells (length hb) (f(2 := f 2 @ [app])) @ U)"
      using e by (simp add: pushInto_applications [of "''added''" 2])
    then show ?thesis
      using Cons.IH [of "f(2 := f 2 @ [app])" U] by (simp only:)
  next
    case True
    show ?thesis
    proof (cases "do { oldVersion \<leftarrow> getProp ?S (mapGet oldApps name) ''version'';
                       newVersion \<leftarrow> getProp ?S app ''version'';
                       Some (oldVersion, newVersion) }")
      case None
      then show ?thesis using True e here by simp
    next
      case (Some vs)
      obtain ov nv where vs: "vs = (ov, nv)" by (cases vs) auto
      show ?thesis
      proof (cases "ov = nv")
        case True
        then have "newAppsLoop (Ref (length hb)) oldApps (e # ents) ?S =
            newAppsLoop (Ref (length hb)) oldApps ents ?S"
          using \<open>mapHas oldApps name\<close> e Some vs by simp
        then show ?thesis using Cons.IH [of f U] by (simp only:)
      next
        case False
        let ?c = "Obj [(''name'', name), (''oldVersion'', ov), (''newVersion'', nv)]"
        have al: "alloc ?S ?c = (hb @ reportCells (length hb) f @ (U @ [?c]),
                    Ref (length hb + 28 + length U))"
          by (simp add: alloc_def)
        obtain g V where
          "fst (newAppsLoop (Ref (length hb)) oldApps ents
                  (hb @ reportCells (length hb)
                     (f(4 := f 4 @ [Ref (length hb + 28 + length U)])) @ (U @ [?c])))
           = hb @ reportCells (length hb) g @ (U @ [?c]) @ V"
          using Cons.IH [of "f(4 := f 4 @ [Ref (length hb + 28 + length U)])" "U @ [?c]"]
          by blast
        moreover have "newAppsLoop (Ref (length hb)) oldApps (e # ents) ?S =
            newAppsLoop (Ref (length hb)) oldApps ents
              (hb @ reportCells (length hb)
                 (f(4 := f 4 @ [Ref (length hb + 28 + length U)])) @ (U @ [?c]))"
          using \<open>mapHas oldApps name\<close> e Some vs False al
          by (simp add: pushInto_applications [of "''updated''" 4])
        ultimately have "fst (newAppsLoop (Ref (length hb)) oldApps (e # ents) ?S)
           = hb @ reportCells (length hb) g @ U @ ([?c] @ V)"
          by simp
        then show ?thesis by blast
      qed
    qed
  qed
qed

lemma oldAppsLoop_ext:
  "\<exists>g V. fst (oldAppsLoop (Ref (length hb)) newApps ents (hb @ reportCells (length hb) f @ U))
          = hb @ reportCells (length hb) g @ U @ V"
proof (induction ents arbitrary: f)
  case Nil
  have "\<exists>g V. hb @ reportCells (length hb) f @ U = hb @ reportCells (length hb) g @ U @ V"
    by (rule exI [of _ f], rule exI [of _ "[]"]) simp
  then show ?case by simp
next
  case (Cons e ents)
  obtain name app where e: "e = (name, app)" by (cases e) auto
  show ?case
  proof (cases "mapHas newApps name")
    case True
    then have "oldAppsLoop (Ref (length hb)) newApps (e # ents)
          (hb @ reportCells (length hb) f @ U) =
        oldAppsLoop (Ref (length hb)) newApps ents (hb @ reportCells (length hb) f @ U)"
      using e by simp
    then show ?thesis using Cons.IH [of f] by (simp only:)
  next
    case False
    then have "oldAppsLoop (Ref (length hb)) newApps (e # ents)
          (hb @ reportCells (length hb) f @ U) =
        oldAppsLoop (Ref (length hb)) newApps ents
          (hb @ reportCells (length hb) (f(3 := f 3 @ [app])) @ U)"
      using e by (simp add: pushInto_applications [of "''removed''" 3])
    then show ?thesis using Cons.IH [of "f(3 := f 3 @ [app])"] by (simp only:)
  qed
qed

lemma compareApplications_ext:
  "\<exists>g V. fst (compareApplications (Ref (length hb)) oldSetup newSetup
                 (hb @ reportCells (length hb) f @ U))
          = hb @ reportCells (length hb) g @ U @ V"
proof -
  let ?S = "hb @ reportCells (length hb) f @ U"
  show ?thesis
  proof (cases "do { oldApps \<leftarrow> appsMap ?S oldSetup;
                     newApps \<leftarrow> appsMap ?S newSetup;
                     Some (oldApps, newApps) }")
    case None
    have "\<exists>g V. ?S = hb @ reportCells (length hb) g @ U @ V"
      by (rule exI [of _ f], rule exI [of _ "[]"]) simp
    then show ?thesis
      using None by (simp add: compareApplications_def)
  next
    case (Some m)
    obtain oldApps newApps where m: "m = (oldApps, newApps)" by (cases m) auto
    obtain g V where 1: "fst (newAppsLoop (Ref (length hb)) oldApps newApps ?S)
        = hb @ reportCells (length hb) g @ U @ V"
      using newAppsLoop_ext by blast
    obtain g' V' where 2: "fst (oldAppsLoop (Ref (length hb)) newApps oldApps
        (hb @ reportCells (length hb) g @ (U @ V))) = hb @ reportCells (length hb) g' @ (U @ V) @ V'"
      using oldAppsLoop_ext by blast
    have "fst (compareApplications (Ref (length hb)) oldSetup newSetup ?S)
        = hb @ reportCells (length hb) g @ U @ V
      \<or> fst (compareApplications (Ref (length hb)) oldSetup newSetup ?S)
        = hb @ reportCells (length hb) g' @ U @ (V @ V')"
      using Some m 1 2 by (auto simp: compareApplications_def fst_andThen split: option.splits)
    then show ?thesis by blast
  qed
qed

lemma snd_andThen:
  "snd (andThen r k) = (case snd r of None \<Rightarrow> None | Some u \<Rightarrow> snd (k (fst r)))"
  by (cases r) (auto simp: andThen_def split: option.splits)

lemma diffSetups_ext:
  "\<exists>g V. fst (diffSetups h oldSetup newSetup) = h @ reportCells (length h) g @ V"
proof -
  let ?d = "Ref (length h)"
  obtain g1 V1 where 1:
    "fst (compareApplications ?d oldSetup newSetup (h @ reportCells (length h) (\<lambda>k. []) @ []))
       = h @ reportCells (length h) g1 @ [] @ V1"
    using compareApplications_ext by blast
  let ?S1 = "h @ reportCells (length h) g1 @ V1"
  obtain g2 V2 where 2:
    "fst (compareAllHomebrew ?d oldSetup newSetup ?S1) = h @ reportCells (length h) g2 @ V1 @ V2"
    using compareAllHomebrew_shape [of h g1 V1 oldSetup newSetup]
    unfolding reportShape_def by blast
  let ?S2 = "h @ reportCells (length h) g2 @ V1 @ V2"
  obtain g3 V3 where 3:
    "fst (globalLoop ?d oldSetup newSetup [''npm'', ''bun'', ''dart'', ''ruby''] ?S2)
       = h @ reportCells (length h) g3 @ (V1 @ V2) @ V3"
    using globalLoop_shape [of h g2 "V1 @ V2" oldSetup newSetup]
    unfolding reportShape_def by blast
  have "fst (diffSetups h oldSetup newSetup) = ?S1
      \<or> fst (diffSetups h oldSetup newSetup) = ?S2
      \<or> fst (diffSetups h oldSetup newSetup) = h @ reportCells (length h) g3 @ (V1 @ V2) @ V3"
    using 1 2 3
    by (auto simp: diffSetups_def Let_def emptyDiffCells_reportCells fst_andThen
        simp del: globalLoop.simps split: option.splits)
  then show ?thesis by blast
qed

lemma diffSetups_result:
  "snd (diffSetups h oldSetup newSetup) = None
   \<or> snd (diffSetups h oldSetup newSetup) = Some (Ref (length h))"
  by (auto simp: diffSetups_def Let_def snd_andThen split: option.splits)


subsection \<open>Reads of the documents during the call\<close>

lemma getProp_prefix: "okVal h v \<Longrightarrow> getProp (h @ Y) v k = getProp h v k"
  by (cases v) (auto simp: nth_append)

lemma elements_prefix: "okVal h v \<Longrightarrow> elements (h @ Y) v = elements h v"
  by (cases v) (auto simp: nth_append)

lemma appsMap_omitted: "getProp S v ''applications'' = Some Undefined \<Longrightarrow> appsMap S v = None"
  by (simp add: appsMap_def)

lemma compareApplications_omitted:
  assumes "okVal h oldSetup" "okVal h newSetup"
    and "getProp h oldSetup ''applications'' = Some Undefined
         \<or> getProp h newSetup ''applications'' = Some Undefined"
  shows "snd (compareApplications d oldSetup newSetup (h @ Y)) = None"
proof -
  have "appsMap (h @ Y) oldSetup = None \<or> appsMap (h @ Y) newSetup = None"
    using assms appsMap_omitted [of "h @ Y"] by (auto simp: getProp_prefix)
  then show ?thesis
    by (auto simp: compareApplications_def split: Option.bind_splits)
qed

lemma orEmpty_prefix: "orEmpty (h @ Y) v = (S, w) \<Longrightarrow> \<exists>Y'. S = h @ Y'"
  by (auto simp: orEmpty_def alloc_def split: if_splits)

lemma globalLoop_omitted:
  assumes "okVal h oldSetup" "okVal h newSetup"
    and "getProp h oldSetup ''globalPackages'' = Some Undefined
         \<or> getProp h newSetup ''globalPackages'' = Some Undefined"
  shows "snd (globalLoop d oldSetup newSetup (manager # managers) (h @ Y)) = None"
proof (cases "do { oldGlobal \<leftarrow> getProp (h @ Y) oldSetup ''globalPackages'';
                   getProp (h @ Y) oldGlobal manager }")
  case None
  then show ?thesis by simp
next
  case (Some ov)
  then have new: "getProp h newSetup ''globalPackages'' = Some Undefined"
    using assms(1,3) by (auto simp: getProp_prefix split: Option.bind_splits)
  obtain S1 oldPkgs where o1: "orEmpty (h @ Y) ov = (S1, oldPkgs)"
    by (cases "orEmpty (h @ Y) ov") auto
  obtain Y' where "S1 = h @ Y'"
    using orEmpty_prefix [OF o1] by blast
  then have "do { newGlobal \<leftarrow> getProp S1 newSetup ''globalPackages'';
                  getProp S1 newGlobal manager } = None"
    using new assms(2) by (simp add: getProp_prefix)
  then show ?thesis using Some o1 by simp
qed

lemma diffSetups_omitted:
  assumes "okVal h oldSetup" "okVal h newSetup"
    and "getProp h oldSetup ''applications'' = Some Undefined
         \<or> getProp h newSetup ''applications'' = Some Undefined
         \<or> getProp h oldSetup ''globalPackages'' = Some Undefined
         \<or> getProp h newSetup ''globalPackages'' = Some Undefined"
  shows "snd (diffSetups h oldSetup newSetup) = None"
proof -
  let ?d = "Ref (length h)"
  let ?r1 = "compareApplications ?d oldSetup newSetup (h @ reportCells (length h) (\<lambda>k. []) @ [])"
  obtain g1 V1 where 1: "fst ?r1 = h @ reportCells (length h) g1 @ [] @ V1"
    using compareApplications_ext by blast
  let ?r2 = "compareAllHomebrew ?d oldSetup newSetup (fst ?r1)"
  obtain g2 V2 where 2: "fst ?r2 = h @ reportCells (length h) g2 @ V1 @ V2"
    using compareAllHomebrew_shape [of h g1 V1 oldSetup newSetup] 1
    unfolding reportShape_def by auto
  let ?r3 = "globalLoop ?d oldSetup newSetup [''npm'', ''bun'', ''dart'', ''ruby''] (fst ?r2)"
  have run: "snd (diffSetups h oldSetup newSetup) =
      (case snd ?r1 of None \<Rightarrow> None
       | Some u \<Rightarrow> (case snd ?r2 of None \<Rightarrow> None
                     | Some u \<Rightarrow> (case snd ?r3 of None \<Rightarrow> None | Some u \<Rightarrow> Some ?d)))"
    by (simp add: diffSetups_def Let_def emptyDiffCells_reportCells snd_andThen fst_andThen
        del: globalLoop.simps split: option.splits)
  show ?thesis
  proof (cases "getProp h oldSetup ''applications'' = Some Undefined
         \<or> getProp h newSetup ''applications'' = Some Undefined")
    case True
    then have "snd ?r1 = None"
      using compareApplications_omitted [OF assms(1,2)] by blast
    then show ?thesis using run by simp
  next
    case False
    then have "snd ?r3 = None"
      unfolding 2 using globalLoop_omitted [OF assms(1,2)] assms(3) by blast
    then show ?thesis using run by (simp split: option.splits)
  qed
qed

subsection \<open>Closed stores\<close>

lemma closed_cell: "closed h \<Longrightarrow> a < length h \<Longrightarrow> v \<in> set (cellVals (h ! a)) \<Longrightarrow> okVal h v"
  unfolding closed_def list_all_iff by (metis nth_mem)

lemma ownProp_cases: "ownProp ps k = Undefined \<or> ownProp ps k \<in> snd ` set ps"
  unfolding ownProp_def by (auto split: option.splits dest: map_of_SomeD intro: rev_image_eqI)

lemma props_cellVals: "snd ` set (props c) \<subseteq> set (cellVals c)"
  by (cases c) auto

lemma closed_getProp:
  assumes "closed h" "getProp h v k = Some w"
  shows "okVal h w"
proof (cases v)
  case (Ref a)
  show ?thesis
  proof (cases "a < length h")
    case True
    then have "w = ownProp (props (h ! a)) k"
      using assms(2) Ref by simp
    then show ?thesis
      using ownProp_cases [of "props (h ! a)" k] props_cellVals [of "h ! a"]
        closed_cell [OF assms(1) True, of w] by auto
  next
    case False
    then show ?thesis using assms(2) Ref by auto
  qed
qed (use assms(2) in auto)

lemma closed_elements:
  assumes "closed h" "elements h v = Some xs" "x \<in> set xs"
  shows "okVal h x"
proof (cases v)
  case (Ref a)
  then have "a < length h" "x \<in> set (cellVals (h ! a))"
    using assms(2,3) by (auto split: if_splits cell.splits)
  then show ?thesis using closed_cell [OF assms(1)] by blast
qed (use assms(2) in auto)

lemma entryOk_getProp:
  "entryOk h v \<Longrightarrow> getProp (h @ Y) v k = getProp h v k \<and> getProp h v k \<noteq> None"
  by (cases v) (auto simp: entryOk_def nth_append)

lemma entryOk_version:
  "entryOk h v \<Longrightarrow> getProp (h @ Y) v ''version'' = Some (versionOf h v)"
  using entryOk_getProp [of h v Y "''version''"] by (auto simp: versionOf_def)

subsection \<open>The lookups\<close>

lemma set_update_subset: "set (AList.update k v al) \<subseteq> insert (k, v) (set al)"
  by (induction al) auto

lemma set_foldl_update:
  "set (foldl (\<lambda>m (k, v). AList.update k v m) m0 pairs) \<subseteq> set m0 \<union> set pairs"
proof (induction pairs arbitrary: m0)
  case Nil
  show ?case by simp
next
  case (Cons p pairs)
  obtain k v where p: "p = (k, v)" by (cases p) auto
  show ?case
    using Cons.IH [of "AList.update k v m0"] set_update_subset [of k v m0] p by auto
qed

lemma set_makeMap: "set (makeMap pairs) \<subseteq> set pairs"
  using set_foldl_update [of "[]" pairs] by (simp add: makeMap_def)

lemma keys_foldl_update:
  "fst ` set (foldl (\<lambda>m (k, v). AList.update k v m) m0 pairs) = fst ` set m0 \<union> fst ` set pairs"
proof (induction pairs arbitrary: m0)
  case Nil
  show ?case by simp
next
  case (Cons p pairs)
  obtain k v where p: "p = (k, v)" by (cases p) auto
  have "fst ` set (AList.update k v m0) = insert k (fst ` set m0)"
    using dom_update [of k v m0] by (simp add: dom_map_of_conv_image_fst)
  then show ?case
    using Cons.IH [of "AList.update k v m0"] p by auto
qed

lemma keys_makeMap: "fst ` set (makeMap pairs) = fst ` set pairs"
  using keys_foldl_update [of "[]" pairs] by (simp add: makeMap_def)

lemma distinct_foldl_update:
  "distinct (map fst m0) \<Longrightarrow>
   distinct (map fst (foldl (\<lambda>m (k, v). AList.update k v m) m0 pairs))"
proof (induction pairs arbitrary: m0)
  case Nil
  then show ?case by simp
next
  case (Cons p pairs)
  obtain k v where p: "p = (k, v)" by (cases p) auto
  show ?case
    using Cons.IH [of "AList.update k v m0"] Cons.prems p by (simp add: distinct_update)
qed

lemma distinct_makeMap: "distinct (map fst (makeMap pairs))"
  using distinct_foldl_update [of "[]" pairs] by (simp add: makeMap_def)

lemma update_fresh: "k \<notin> fst ` set al \<Longrightarrow> AList.update k v al = al @ [(k, v)]"
  by (induction al) auto

lemma foldl_update_distinct:
  "distinct (map fst (m0 @ pairs)) \<Longrightarrow>
   foldl (\<lambda>m (k, v). AList.update k v m) m0 pairs = m0 @ pairs"
proof (induction pairs arbitrary: m0)
  case Nil
  show ?case by simp
next
  case (Cons p pairs)
  obtain k v where p: "p = (k, v)" by (cases p) auto
  have "AList.update k v m0 = m0 @ [(k, v)]"
    using Cons.prems p by (intro update_fresh) auto
  then show ?case
    using Cons.IH [of "m0 @ [(k, v)]"] Cons.prems p by simp
qed

lemma makeMap_distinct: "distinct (map fst pairs) \<Longrightarrow> makeMap pairs = pairs"
  using foldl_update_distinct [of "[]" pairs] by (simp add: makeMap_def)

lemma mapHas_mapGet: "mapHas m k \<Longrightarrow> (k, mapGet m k) \<in> set m"
proof -
  assume "mapHas m k"
  then obtain v where "map_of m k = Some v"
    unfolding mapHas_def by (metis domD dom_map_of_conv_image_fst)
  then show ?thesis
    by (auto simp: mapGet_def dest: map_of_SomeD)
qed

lemma mapM_named:
  "mapM (\<lambda>a. do { name \<leftarrow> getProp h a ''name''; Some (name, a) }) es = Some pairs \<Longrightarrow>
   pairs = map (\<lambda>a. (nameOf h a, a)) es \<and> (\<forall>a \<in> set es. a \<noteq> Undefined \<and> a \<noteq> Null)"
proof (induction es arbitrary: pairs)
  case Nil
  then show ?case by simp
next
  case (Cons e es)
  then show ?case
    by (auto simp: nameOf_def split: Option.bind_splits)
qed

lemma mapM_cong:
  "(\<And>x. x \<in> set xs \<Longrightarrow> f x = g x) \<Longrightarrow> mapM f xs = mapM g xs"
  by (induction xs) auto

lemma appsMap_prefix:
  assumes "closed h" "okVal h v"
  shows "appsMap (h @ Y) v = appsMap h v"
proof (cases "getProp h v ''applications''")
  case None
  then show ?thesis using assms(2) by (simp add: appsMap_def getProp_prefix)
next
  case (Some arr)
  have arr: "okVal h arr" using closed_getProp [OF assms(1) Some] .
  show ?thesis
  proof (cases "elements h arr")
    case None
    then show ?thesis
      using Some assms(2) arr by (simp add: appsMap_def getProp_prefix elements_prefix)
  next
    case es: (Some es)
    have "mapM (\<lambda>a. do { name \<leftarrow> getProp (h @ Y) a ''name''; Some (name, a) }) es
        = mapM (\<lambda>a. do { name \<leftarrow> getProp h a ''name''; Some (name, a) }) es"
      using closed_elements [OF assms(1) es] by (intro mapM_cong) (simp add: getProp_prefix)
    then show ?thesis
      using Some es assms(2) arr by (simp add: appsMap_def getProp_prefix elements_prefix)
  qed
qed

lemma appsMap_entries:
  assumes "appsMap h v = Some m"
  shows "\<exists>arr es. getProp h v ''applications'' = Some arr \<and> elements h arr = Some es
           \<and> m = makeMap (map (\<lambda>a. (nameOf h a, a)) es)
           \<and> (\<forall>a \<in> set es. a \<noteq> Undefined \<and> a \<noteq> Null)"
  using assms mapM_named [of h]
  by (auto simp: appsMap_def split: Option.bind_splits)

lemma appsMap_entryOk:
  assumes "closed h" "appsMap h v = Some m" "(name, app) \<in> set m"
  shows "entryOk h app \<and> nameOf h app = name"
proof -
  obtain arr es where e: "elements h arr = Some es"
    "m = makeMap (map (\<lambda>a. (nameOf h a, a)) es)" "\<forall>a \<in> set es. a \<noteq> Undefined \<and> a \<noteq> Null"
    using appsMap_entries [OF assms(2)] by blast
  have "(name, app) \<in> set (map (\<lambda>a. (nameOf h a, a)) es)"
    using assms(3) e(2) set_makeMap by blast
  then have "app \<in> set es" "nameOf h app = name" by auto
  then show ?thesis
    using e(3) closed_elements [OF assms(1) e(1)] by (simp add: entryOk_def)
qed

subsection \<open>What the loops over the applications push\<close>

lemma reportCells_eqI:
  assumes "\<And>k. f k = g k"
  shows "reportCells n f = reportCells n g"
proof -
  have "f = g" using assms by (simp add: fun_eq_iff)
  then show ?thesis by simp
qed

lemma newAppsLoop_precise:
  assumes "\<forall>(name, app) \<in> set ents. entryOk h app"
    and "\<forall>(name, app) \<in> set oldApps. entryOk h app"
    and "hb = h @ X"
  shows "newAppsLoop (Ref (length hb)) oldApps ents (hb @ reportCells (length hb) f @ U) =
    (hb @ reportCells (length hb)
       (f(2 := f 2 @ onlyIn ents oldApps,
          4 := f 4 @ map Ref [length hb + 28 + length U ..<
                              length hb + 28 + length U + length (changedIn h oldApps ents)]))
     @ U @ map updatedCell (changedIn h oldApps ents), Some ())"
  using assms(1)
proof (induction ents arbitrary: f U)
  case Nil
  show ?case by (simp add: onlyIn_def changedIn_def)
next
  case (Cons e ents)
  obtain name app where e: "e = (name, app)" by (cases e) auto
  have app: "entryOk h app" and rest: "\<forall>(name, app) \<in> set ents. entryOk h app"
    using Cons.prems e by auto
  let ?S = "hb @ reportCells (length hb) f @ U"
  have S: "?S = h @ (X @ reportCells (length hb) f @ U)"
    using assms(3) by simp
  show ?case
  proof (cases "mapHas oldApps name")
    case False
    have step: "newAppsLoop (Ref (length hb)) oldApps (e # ents) ?S =
        newAppsLoop (Ref (length hb)) oldApps ents
          (hb @ reportCells (length hb) (f(2 := f 2 @ [app])) @ U)"
      using False e by (simp add: pushInto_applications [of "''added''" 2])
    have l: "onlyIn (e # ents) oldApps = app # onlyIn ents oldApps"
      "changedIn h oldApps (e # ents) = changedIn h oldApps ents"
      using False e by (simp_all add: onlyIn_def changedIn_def)
    show ?thesis
      unfolding step l Cons.IH [OF rest] by (auto intro!: reportCells_eqI)
  next
    case True
    have old: "entryOk h (mapGet oldApps name)"
      using mapHas_mapGet [OF True] assms(2) by auto
    have reads: "getProp ?S (mapGet oldApps name) ''version'' = Some (versionOf h (mapGet oldApps name))"
      "getProp ?S app ''version'' = Some (versionOf h app)"
      unfolding S using entryOk_version old app by blast+
    show ?thesis
    proof (cases "versionOf h (mapGet oldApps name) = versionOf h app")
      case same: True
      have step: "newAppsLoop (Ref (length hb)) oldApps (e # ents) ?S =
          newAppsLoop (Ref (length hb)) oldApps ents ?S"
        using True e reads same by simp
      have l: "onlyIn (e # ents) oldApps = onlyIn ents oldApps"
        "changedIn h oldApps (e # ents) = changedIn h oldApps ents"
        using True e same by (simp_all add: onlyIn_def changedIn_def)
      show ?thesis
        unfolding step l Cons.IH [OF rest] by (auto intro!: reportCells_eqI)
    next
      case differ: False
      let ?u = "(name, versionOf h (mapGet oldApps name), versionOf h app)"
      let ?a = "length hb + 28 + length U"
      have step: "newAppsLoop (Ref (length hb)) oldApps (e # ents) ?S =
          newAppsLoop (Ref (length hb)) oldApps ents
            (hb @ reportCells (length hb) (f(4 := f 4 @ [Ref ?a])) @ (U @ [updatedCell ?u]))"
        using True e reads differ
        by (simp add: alloc_def pushInto_applications [of "''updated''" 4 _ _ "U @ _"]
            add.assoc)
      have l: "onlyIn (e # ents) oldApps = onlyIn ents oldApps"
        "changedIn h oldApps (e # ents) = ?u # changedIn h oldApps ents"
        using True e differ by (simp_all add: onlyIn_def changedIn_def)
      have len: "length hb + 28 + length (U @ [updatedCell ?u]) = Suc ?a"
        by simp
      show ?thesis
        unfolding step l Cons.IH [OF rest] len
        by (auto intro!: reportCells_eqI simp: upt_conv_Cons add.assoc)
    qed
  qed
qed

lemma oldAppsLoop_precise:
  "oldAppsLoop (Ref (length hb)) newApps ents (hb @ reportCells (length hb) f @ U) =
    (hb @ reportCells (length hb) (f(3 := f 3 @ onlyIn ents newApps)) @ U, Some ())"
proof (induction ents arbitrary: f)
  case Nil
  show ?case by (simp add: onlyIn_def)
next
  case (Cons e ents)
  obtain name app where e: "e = (name, app)" by (cases e) auto
  show ?case
  proof (cases "mapHas newApps name")
    case True
    then show ?thesis
      using e Cons.IH [of f] by (simp add: onlyIn_def)
  next
    case False
    have step: "oldAppsLoop (Ref (length hb)) newApps (e # ents)
          (hb @ reportCells (length hb) f @ U) =
        oldAppsLoop (Ref (length hb)) newApps ents
          (hb @ reportCells (length hb) (f(3 := f 3 @ [app])) @ U)"
      using False e by (simp add: pushInto_applications [of "''removed''" 3])
    have l: "onlyIn (e # ents) newApps = app # onlyIn ents newApps"
      using False e by (simp add: onlyIn_def)
    show ?thesis
      unfolding step l Cons.IH by (auto intro!: reportCells_eqI)
  qed
qed

lemma compareApplications_precise:
  assumes "closed h" "okVal h oldSetup" "okVal h newSetup" "hb = h @ X"
    and "appsMap h oldSetup = Some oldApps" "appsMap h newSetup = Some newApps"
  shows "compareApplications (Ref (length hb)) oldSetup newSetup
           (hb @ reportCells (length hb) (\<lambda>k. []) @ []) =
    (hb @ reportCells (length hb)
       ((\<lambda>k. [])(2 := onlyIn newApps oldApps,
          4 := map Ref [length hb + 28 ..< length hb + 28 + length (changedIn h oldApps newApps)],
          3 := onlyIn oldApps newApps))
     @ map updatedCell (changedIn h oldApps newApps), Some ())"
proof -
  let ?S = "hb @ reportCells (length hb) (\<lambda>k. []) @ []"
  have S: "?S = h @ (X @ reportCells (length hb) (\<lambda>k. []))"
    using assms(4) by simp
  have maps: "appsMap ?S oldSetup = Some oldApps" "appsMap ?S newSetup = Some newApps"
    unfolding S using assms by (simp_all add: appsMap_prefix)
  have ok: "\<forall>(name, app) \<in> set newApps. entryOk h app"
    "\<forall>(name, app) \<in> set oldApps. entryOk h app"
    using appsMap_entryOk [OF assms(1,6)] appsMap_entryOk [OF assms(1,5)] by auto
  show ?thesis
    unfolding compareApplications_def maps
    using newAppsLoop_precise [OF ok assms(4), of "\<lambda>k. []" "[]"]
      oldAppsLoop_precise [of hb newApps oldApps _ "[] @ map updatedCell (changedIn h oldApps newApps)"]
    by (auto simp: andThen_def intro!: reportCells_eqI)
qed

subsection \<open>The report of a call that returns\<close>

lemma diffSetups_lookups:
  assumes "closed h" "okVal h oldSetup" "okVal h newSetup"
    and "diffSetups (h @ X) oldSetup newSetup = (S, Some d)"
  shows "\<exists>oldApps newApps g V.
           appsMap h oldSetup = Some oldApps \<and> appsMap h newSetup = Some newApps
           \<and> d = Ref (length (h @ X))
           \<and> S = (h @ X) @ reportCells (length (h @ X)) g
                   @ map updatedCell (changedIn h oldApps newApps) @ V
           \<and> g 2 = onlyIn newApps oldApps \<and> g 3 = onlyIn oldApps newApps
           \<and> g 4 = map Ref [length (h @ X) + 28 ..<
                              length (h @ X) + 28 + length (changedIn h oldApps newApps)]
           \<and> (\<forall>k \<in> globalOffsets. g k = [])"
proof -
  let ?hb = "h @ X"
  let ?d = "Ref (length ?hb)"
  let ?S0 = "?hb @ reportCells (length ?hb) (\<lambda>k. []) @ []"
  let ?r1 = "compareApplications ?d oldSetup newSetup ?S0"
  let ?r2 = "compareAllHomebrew ?d oldSetup newSetup (fst ?r1)"
  let ?r3 = "globalLoop ?d oldSetup newSetup [''npm'', ''bun'', ''dart'', ''ruby''] (fst ?r2)"
  have run: "diffSetups ?hb oldSetup newSetup =
      (case snd ?r1 of None \<Rightarrow> (fst ?r1, None)
       | Some u \<Rightarrow> (case snd ?r2 of None \<Rightarrow> (fst ?r2, None)
                     | Some u \<Rightarrow> (case snd ?r3 of None \<Rightarrow> (fst ?r3, None)
                                   | Some u \<Rightarrow> (fst ?r3, Some ?d))))"
    by (simp add: diffSetups_def Let_def emptyDiffCells_reportCells andThen_def
        del: globalLoop.simps split: option.splits prod.splits)
  have ret: "snd ?r1 \<noteq> None" "S = fst ?r3" "d = ?d"
    using assms(4) unfolding run by (auto split: option.splits)
  have S0: "?S0 = h @ (X @ reportCells (length ?hb) (\<lambda>k. []))"
    by simp
  have "appsMap ?S0 oldSetup \<noteq> None \<and> appsMap ?S0 newSetup \<noteq> None"
    using ret(1) by (auto simp: compareApplications_def split: Option.bind_splits)
  then obtain oldApps newApps where maps: "appsMap h oldSetup = Some oldApps"
    "appsMap h newSetup = Some newApps"
    unfolding S0 using assms(1-3) by (auto simp: appsMap_prefix)
  let ?C = "map updatedCell (changedIn h oldApps newApps)"
  let ?g1 = "(\<lambda>k::nat. [])(2 := onlyIn newApps oldApps,
      4 := map Ref [length ?hb + 28 ..< length ?hb + 28 + length (changedIn h oldApps newApps)],
      3 := onlyIn oldApps newApps)"
  have 1: "fst ?r1 = ?hb @ reportCells (length ?hb) ?g1 @ ?C"
    using compareApplications_precise [OF assms(1-3) refl maps, of X] by simp
  obtain g2 V2 where 2: "fst ?r2 = ?hb @ reportCells (length ?hb) g2 @ ?C @ V2"
    "\<forall>k. k \<in> homebrewOffsets \<or> g2 k = ?g1 k"
    using compareAllHomebrew_shape [of ?hb ?g1 ?C oldSetup newSetup]
    unfolding 1 reportShape_def by blast
  obtain g3 V3 where 3: "fst ?r3 = ?hb @ reportCells (length ?hb) g3 @ (?C @ V2) @ V3"
    "\<forall>k. k \<in> homebrewOffsets \<or> g3 k = g2 k"
    using globalLoop_shape [of ?hb g2 "?C @ V2" oldSetup newSetup]
    unfolding 2(1) reportShape_def by blast
  have kept: "k \<in> homebrewOffsets \<or> g3 k = ?g1 k" for k
    using 2(2) 3(2) by metis
  have "S = ?hb @ reportCells (length ?hb) g3 @ ?C @ (V2 @ V3)"
    using ret(2) 3(1) by simp
  moreover have "g3 2 = onlyIn newApps oldApps" "g3 3 = onlyIn oldApps newApps"
    "g3 4 = map Ref [length ?hb + 28 ..< length ?hb + 28 + length (changedIn h oldApps newApps)]"
    using kept [of 2] kept [of 3] kept [of 4] by (simp_all add: homebrewOffsets_def)
  moreover have "\<forall>k \<in> globalOffsets. g3 k = []"
  proof
    fix k assume "k \<in> globalOffsets"
    then show "g3 k = []"
      using kept [of k] by (auto simp: homebrewOffsets_def globalOffsets_def)
  qed
  ultimately show ?thesis
    using maps ret(3) by blast
qed

lemma path_globalPackages:
  assumes "manager \<in> {''npm'', ''bun'', ''dart'', ''ruby''}" "fld \<in> {''added'', ''removed''}"
  shows "\<exists>k \<in> globalOffsets.
           path (hb @ reportCells (length hb) g @ U) (Ref (length hb))
             [''globalPackages'', manager, fld] = Some (Ref (length hb + k))"
  using assms getProp_report [of 0 hb g U] getProp_report [of 15 hb g U]
    getProp_report [of 16 hb g U] getProp_report [of 19 hb g U]
    getProp_report [of 22 hb g U] getProp_report [of 25 hb g U]
  by (auto simp: reportCells_def pkgCells_def ownProp_def globalOffsets_def)

lemma globalOffsets_array: "k \<in> globalOffsets \<Longrightarrow> k \<in> arrayOffsets"
  unfolding arrayOffsets_def globalOffsets_def by auto

lemma diffSetups_globalPackages_empty:
  assumes "closed h" "okVal h oldSetup" "okVal h newSetup"
    and "diffSetups h oldSetup newSetup = (S, Some d)"
    and "manager \<in> {''npm'', ''bun'', ''dart'', ''ruby''}" "fld \<in> {''added'', ''removed''}"
  shows "reportList S d [''globalPackages'', manager, fld] = Some []"
proof -
  obtain g V where S: "d = Ref (length h)" "S = h @ reportCells (length h) g @ V"
    "\<forall>k \<in> globalOffsets. g k = []"
    using diffSetups_lookups [OF assms(1-3), of "[]" S d] assms(4) by auto
  obtain k where k: "k \<in> globalOffsets"
    "path S d [''globalPackages'', manager, fld] = Some (Ref (length h + k))"
    using path_globalPackages [OF assms(5,6), of h g V] unfolding S(1,2) by blast
  have "elements S (Ref (length h + k)) = Some (g k)"
    unfolding S(2) by (rule elements_report [OF globalOffsets_array [OF k(1)]])
  then show ?thesis
    unfolding reportList_def k(2) using S(3) k(1) by (simp del: elements.simps)
qed

lemma reportList_applications:
  assumes "fld = ''added'' \<and> k = 2 \<or> fld = ''removed'' \<and> k = 3 \<or> fld = ''updated'' \<and> k = 4"
  shows "reportList (hb @ reportCells (length hb) g @ U) (Ref (length hb)) [''applications'', fld]
           = Some (g k)"
proof -
  have "k \<in> arrayOffsets"
    using assms by (auto simp: arrayOffsets_def)
  then show ?thesis
    unfolding reportList_def path_applications [OF assms]
    by (simp add: elements_report del: elements.simps)
qed

lemma cellAt_updated:
  "map (cellAt (hb @ reportCells (length hb) g @ C @ V))
       (map Ref [length hb + 28 ..< length hb + 28 + length C]) = map Some C"
proof (rule nth_equalityI)
  show "length (map (cellAt (hb @ reportCells (length hb) g @ C @ V))
       (map Ref [length hb + 28 ..< length hb + 28 + length C])) = length (map Some C)"
    by simp
next
  fix i
  assume "i < length (map (cellAt (hb @ reportCells (length hb) g @ C @ V))
       (map Ref [length hb + 28 ..< length hb + 28 + length C]))"
  then have i: "i < length C" by simp
  have "(hb @ reportCells (length hb) g @ C @ V) ! (length hb + 28 + i) = C ! i"
    using i by (simp add: nth_append)
  then show "map (cellAt (hb @ reportCells (length hb) g @ C @ V))
       (map Ref [length hb + 28 ..< length hb + 28 + length C]) ! i = map Some C ! i"
    using i by simp
qed

subsection \<open>Entries with distinct names\<close>

lemma appsMap_appEntries:
  assumes "appsMap h v = Some m"
  shows "\<exists>es. appEntries h v = Some es \<and> m = makeMap (map (\<lambda>a. (nameOf h a, a)) es)"
  using appsMap_entries [OF assms] by (auto simp: appEntries_def)

lemma appsMap_distinct:
  assumes "appsMap h v = Some m" "appEntries h v = Some es" "distinct (map (nameOf h) es)"
  shows "m = map (\<lambda>a. (nameOf h a, a)) es"
proof -
  have m: "m = makeMap (map (\<lambda>a. (nameOf h a, a)) es)"
    using appsMap_appEntries [OF assms(1)] assms(2) by auto
  have "distinct (map fst (map (\<lambda>a. (nameOf h a, a)) es))"
    using assms(3) by (simp add: comp_def)
  then show ?thesis
    unfolding m by (rule makeMap_distinct)
qed

lemma mapHas_keyed: "mapHas (map (\<lambda>a. (f a, a)) es) k = (k \<in> f ` set es)"
  by (auto simp: mapHas_def image_iff)

lemma onlyIn_keyed:
  "onlyIn (map (\<lambda>a. (nameOf h a, a)) es) (map (\<lambda>a. (nameOf h a, a)) others)
     = missingFrom h others es"
  by (induction es) (auto simp: onlyIn_def missingFrom_def mapHas_keyed)

lemma filter_key_distinct:
  "distinct (map f xs) \<Longrightarrow> x \<in> set xs \<Longrightarrow> filter (\<lambda>y. f y = f x) xs = [x]"
proof (induction xs)
  case Nil
  then show ?case by simp
next
  case (Cons y ys)
  show ?case
  proof (cases "y = x")
    case True
    then have "filter (\<lambda>y. f y = f x) ys = []"
      using Cons.prems(1) by (auto simp: filter_empty_conv image_iff)
    then show ?thesis using True by simp
  next
    case False
    then show ?thesis using Cons by (auto simp: image_iff)
  qed
qed

lemma filter_key_absent: "k \<notin> f ` set xs \<Longrightarrow> filter (\<lambda>y. f y = k \<and> P y) xs = []"
  by (auto simp: filter_empty_conv)

lemma mapGet_keyed:
  assumes "distinct (map f xs)" "x \<in> set xs"
  shows "mapGet (map (\<lambda>a. (f a, a)) xs) (f x) = x"
proof -
  have "distinct (map fst (map (\<lambda>a. (f a, a)) xs))"
    using assms(1) by (simp add: comp_def)
  moreover have "(f x, x) \<in> set (map (\<lambda>a. (f a, a)) xs)"
    using assms(2) by auto
  ultimately have "map_of (map (\<lambda>a. (f a, a)) xs) (f x) = Some x"
    by (rule map_of_is_SomeI)
  then show ?thesis by (simp add: mapGet_def)
qed

lemma changedIn_keyed:
  assumes "distinct (map (nameOf h) oes)"
  shows "changedIn h (map (\<lambda>a. (nameOf h a, a)) oes) (map (\<lambda>a. (nameOf h a, a)) nes)
           = versionChanges h oes nes"
proof (induction nes)
  case Nil
  show ?case by (simp add: changedIn_def versionChanges_def)
next
  case (Cons a nes)
  let ?old = "map (\<lambda>a. (nameOf h a, a)) oes"
  have rest: "changedIn h ?old (map (\<lambda>a. (nameOf h a, a)) (a # nes)) =
      (if mapHas ?old (nameOf h a) \<and> versionOf h (mapGet ?old (nameOf h a)) \<noteq> versionOf h a
       then [(nameOf h a, versionOf h (mapGet ?old (nameOf h a)), versionOf h a)] else [])
      @ versionChanges h oes nes"
    using Cons.IH by (simp add: changedIn_def)
  have spec: "versionChanges h oes (a # nes) =
      map (\<lambda>b. (nameOf h a, versionOf h b, versionOf h a))
        (filter (\<lambda>b. nameOf h b = nameOf h a \<and> versionOf h b \<noteq> versionOf h a) oes)
      @ versionChanges h oes nes"
    by (simp add: versionChanges_def)
  show ?case
  proof (cases "nameOf h a \<in> nameOf h ` set oes")
    case False
    then show ?thesis
      unfolding rest spec by (simp add: mapHas_keyed filter_key_absent)
  next
    case True
    then obtain b where b: "b \<in> set oes" "nameOf h b = nameOf h a" by auto
    have get: "mapGet ?old (nameOf h a) = b"
      using mapGet_keyed [OF assms b(1)] b(2) by simp
    have "filter (\<lambda>y. nameOf h y = nameOf h a) oes = [b]"
      using filter_key_distinct [OF assms b(1)] b(2) by simp
    moreover have "filter (\<lambda>b. nameOf h b = nameOf h a \<and> versionOf h b \<noteq> versionOf h a) oes
        = filter (\<lambda>b. versionOf h b \<noteq> versionOf h a) (filter (\<lambda>y. nameOf h y = nameOf h a) oes)"
      by simp
    ultimately have "filter (\<lambda>b. nameOf h b = nameOf h a \<and> versionOf h b \<noteq> versionOf h a) oes
        = filter (\<lambda>b. versionOf h b \<noteq> versionOf h a) [b]"
      by (simp only:)
    then show ?thesis
      unfolding rest spec using True get by (simp add: mapHas_keyed)
  qed
qed

lemma distinct_key_unique:
  "distinct (map f xs) \<Longrightarrow> x \<in> set xs \<Longrightarrow> y \<in> set xs \<Longrightarrow> f x = f y \<Longrightarrow> x = y"
  by (auto simp: distinct_map dest: inj_onD)

lemma nameOf_prefix: "okVal h v \<Longrightarrow> nameOf (h @ Y) v = nameOf h v"
  by (simp add: nameOf_def getProp_prefix)

lemma onlyIn_entries:
  assumes "closed h" "appsMap h v = Some m"
  shows "\<forall>a \<in> set (onlyIn m others). okVal h a"
  using appsMap_entryOk [OF assms] by (auto simp: onlyIn_def entryOk_def)

lemma nameOf_image_prefix:
  "\<forall>e \<in> set es. okVal h e \<Longrightarrow> nameOf (h @ Y) ` set es = nameOf h ` set es"
  by (auto simp: nameOf_prefix image_iff)

subsection \<open>The claims on diffSetups\<close>

text \<open>
  Claim C8. For every store and every two values, whether \<open>diffSetups\<close> returns or throws,
  the store after the call is the store before the call followed by new cells: every cell
  that was there, so every object and array of the two documents, is unchanged. The new
  cells start with the 28 cells of the report, and the result of a call that returns is the
  address of the first of them, which the store before the call does not have. (The
  arrays of \<^verbatim>\<open>applications\<close> hold the entries of the documents themselves, by reference.)
\<close>

theorem diffSetups_frame:
  "take (length h) (fst (diffSetups h oldSetup newSetup)) = h
   \<and> (\<exists>g V. fst (diffSetups h oldSetup newSetup) = h @ reportCells (length h) g @ V)
   \<and> (snd (diffSetups h oldSetup newSetup) = None
       \<or> snd (diffSetups h oldSetup newSetup) = Some (Ref (length h)))"
proof -
  obtain g V where "fst (diffSetups h oldSetup newSetup) = h @ reportCells (length h) g @ V"
    using diffSetups_ext by blast
  then show ?thesis
    using diffSetups_result [of h oldSetup newSetup] by auto
qed

text \<open>
  Claim C10. When one of the two documents has no \<^verbatim>\<open>applications\<close> or no
  \<^verbatim>\<open>globalPackages\<close> property, \<open>diffSetups\<close> throws. Validation does not exclude this:
  \<open>noGlobalDoc\<close> is reported valid, with no error and no backfill, it has no
  \<^verbatim>\<open>globalPackages\<close>, and \<open>diffSetups\<close> throws on it; \<open>legacyDoc\<close> is reported valid, it
  has no \<^verbatim>\<open>applications\<close>, and \<open>diffSetups\<close> throws on the store that validation left.
\<close>

theorem diffSetups_missing_section:
  "(okVal h oldSetup \<and> okVal h newSetup
     \<and> (getProp h oldSetup ''applications'' = Some Undefined
        \<or> getProp h newSetup ''applications'' = Some Undefined
        \<or> getProp h oldSetup ''globalPackages'' = Some Undefined
        \<or> getProp h newSetup ''globalPackages'' = Some Undefined)
     \<longrightarrow> snd (diffSetups h oldSetup newSetup) = None)
   \<and> validateSetup noGlobalDoc (Ref 0) = (noGlobalDoc, Some \<lparr>valid = True, errors = []\<rparr>)
   \<and> getProp noGlobalDoc (Ref 0) ''globalPackages'' = Some Undefined
   \<and> snd (diffSetups noGlobalDoc (Ref 0) (Ref 0)) = None
   \<and> snd (validateSetup legacyDoc (Ref 0)) = Some \<lparr>valid = True, errors = []\<rparr>
   \<and> getProp (fst (validateSetup legacyDoc (Ref 0))) (Ref 0) ''applications'' = Some Undefined
   \<and> snd (diffSetups (fst (validateSetup legacyDoc (Ref 0))) (Ref 0) (Ref 0)) = None"
proof -
  have "validateSetup noGlobalDoc (Ref 0) = (noGlobalDoc, Some \<lparr>valid = True, errors = []\<rparr>)
   \<and> getProp noGlobalDoc (Ref 0) ''globalPackages'' = Some Undefined
   \<and> snd (diffSetups noGlobalDoc (Ref 0) (Ref 0)) = None
   \<and> snd (validateSetup legacyDoc (Ref 0)) = Some \<lparr>valid = True, errors = []\<rparr>
   \<and> getProp (fst (validateSetup legacyDoc (Ref 0))) (Ref 0) ''applications'' = Some Undefined
   \<and> snd (diffSetups (fst (validateSetup legacyDoc (Ref 0))) (Ref 0) (Ref 0)) = None"
    by code_simp
  then show ?thesis
    using diffSetups_omitted [of h oldSetup newSetup] by blast
qed

theorem diffSetups_missing_section_witness:
  "okVal legacyDoc (Ref 0)
   \<and> getProp legacyDoc (Ref 0) ''applications'' = Some Undefined
   \<and> snd (diffSetups legacyDoc (Ref 0) (Ref 0)) = None
   \<and> okVal (twoDocs []) (Ref 12) \<and> okVal noGlobalDoc (Ref 0)
   \<and> getProp noGlobalDoc (Ref 0) ''globalPackages'' = Some Undefined
   \<and> snd (diffSetups noGlobalDoc (Ref 0) (Ref 0)) = None"
proof -
  have 1: "okVal legacyDoc (Ref 0) \<and> getProp legacyDoc (Ref 0) ''applications'' = Some Undefined"
    by code_simp
  have 2: "okVal noGlobalDoc (Ref 0) \<and> getProp noGlobalDoc (Ref 0) ''globalPackages'' = Some Undefined"
    by code_simp
  have 3: "okVal (twoDocs []) (Ref 12)" by code_simp
  have 4: "snd (diffSetups legacyDoc (Ref 0) (Ref 0)) = None"
    using 1 diffSetups_missing_section [of legacyDoc "Ref 0" "Ref 0"] by blast
  have 5: "snd (diffSetups noGlobalDoc (Ref 0) (Ref 0)) = None"
    using 2 diffSetups_missing_section [of noGlobalDoc "Ref 0" "Ref 0"] by blast
  show ?thesis
    using 1 2 3 4 5 by blast
qed

text \<open>
  Claim C1, the failing input. The two documents of \<open>twoDocs [Str ''typescript'']\<close> are
  valid; the old one has no global npm package and the new one has \<^verbatim>\<open>typescript\<close>. The
  push of line 231 goes to \<^verbatim>\<open>diff.homebrew[category]\<close> with the category \<^verbatim>\<open>npm\<close>, which
  is \<^verbatim>\<open>undefined\<close>: \<open>diffSetups\<close> throws and there is no report. Lemma
  \<open>diffSetups_globalPackages_empty\<close> above is the other half: a call that returns leaves
  every array of \<^verbatim>\<open>globalPackages\<close> in the report empty, so no difference between
  global packages is ever reported.
\<close>

theorem diffSetups_global_packages_throws:
  "path (twoDocs [Str ''typescript'']) (Ref 0) [''globalPackages'', ''npm''] = Some (Ref 11)
   \<and> elements (twoDocs [Str ''typescript'']) (Ref 11) = Some []
   \<and> path (twoDocs [Str ''typescript'']) (Ref 12) [''globalPackages'', ''npm''] = Some (Ref 23)
   \<and> elements (twoDocs [Str ''typescript'']) (Ref 23) = Some [Str ''typescript'']
   \<and> snd (validateSetup (twoDocs [Str ''typescript'']) (Ref 0)) = Some \<lparr>valid = True, errors = []\<rparr>
   \<and> snd (validateSetup (twoDocs [Str ''typescript'']) (Ref 12)) = Some \<lparr>valid = True, errors = []\<rparr>
   \<and> snd (diffSetups (twoDocs [Str ''typescript'']) (Ref 0) (Ref 12)) = None"
  by code_simp

text \<open>
  Claim C6, the counterexample. The two documents of \<open>noGlobalPair\<close> are valid and their
  \<^verbatim>\<open>applications\<close> are arrays; the new one has \<^verbatim>\<open>Figma.app\<close>, the old one has no
  application. Neither has \<^verbatim>\<open>globalPackages\<close>, so \<open>diffSetups\<close> throws at line 249 and
  reports nothing.
\<close>

theorem diffSetups_applications_counterexample:
  "snd (validateSetup noGlobalPair (Ref 0)) = Some \<lparr>valid = True, errors = []\<rparr>
   \<and> snd (validateSetup noGlobalPair (Ref 7)) = Some \<lparr>valid = True, errors = []\<rparr>
   \<and> appEntries noGlobalPair (Ref 0) = Some []
   \<and> appEntries noGlobalPair (Ref 7) = Some [Ref 10]
   \<and> nameOf noGlobalPair (Ref 10) = Str ''Figma.app''
   \<and> snd (diffSetups noGlobalPair (Ref 0) (Ref 7)) = None"
  by code_simp

text \<open>
  Claim C6, amended. Take two documents of a closed store whose \<^verbatim>\<open>applications\<close> are
  arrays of entries with distinct names (each list is keyed by name), and let \<open>diffSetups\<close>
  return. Then \<^verbatim>\<open>applications.added\<close> holds the entries of the new document whose name no
  old entry has, \<^verbatim>\<open>applications.removed\<close> the entries of the old document whose name no
  new entry has, both the entries themselves and in the order of their document, and
  \<^verbatim>\<open>applications.updated\<close> holds one new object \<^verbatim>\<open>{name, oldVersion, newVersion}\<close> for
  every name that both documents have with versions that are not equal; versions are
  compared as values, two strings being equal when they are the same string. A name that
  both documents have with equal versions is the name of no added entry, of no removed
  entry and of no update. (For lists with repeated names the lemma \<open>diffSetups_lookups\<close>
  states the report in terms of the two lookups.)
\<close>

theorem diffSetups_applications:
  assumes "closed h" and "okVal h oldSetup" and "okVal h newSetup"
    and "appEntries h oldSetup = Some oes" and "appEntries h newSetup = Some nes"
    and "distinct (map (nameOf h) oes)" and "distinct (map (nameOf h) nes)"
    and "diffSetups h oldSetup newSetup = (h', Some d)"
  shows "reportList h' d [''applications'', ''added''] = Some (missingFrom h oes nes)
       \<and> reportList h' d [''applications'', ''removed''] = Some (missingFrom h nes oes)
       \<and> (\<exists>updated. reportList h' d [''applications'', ''updated''] = Some updated
            \<and> map (cellAt h') updated =
                map (\<lambda>u. Some (updatedCell u)) (versionChanges h oes nes))
       \<and> (\<forall>a \<in> set nes. \<forall>b \<in> set oes.
            nameOf h b = nameOf h a \<and> versionOf h b = versionOf h a \<longrightarrow>
              a \<notin> set (missingFrom h oes nes) \<and> b \<notin> set (missingFrom h nes oes)
              \<and> nameOf h a \<notin> fst ` set (versionChanges h oes nes))"
proof -
  obtain oldApps newApps g V where r:
    "appsMap h oldSetup = Some oldApps" "appsMap h newSetup = Some newApps"
    "d = Ref (length h)"
    "h' = h @ reportCells (length h) g @ map updatedCell (changedIn h oldApps newApps) @ V"
    "g 2 = onlyIn newApps oldApps" "g 3 = onlyIn oldApps newApps"
    "g 4 = map Ref [length h + 28 ..< length h + 28 + length (changedIn h oldApps newApps)]"
    using diffSetups_lookups [OF assms(1-3), of "[]" h' d] assms(8) by auto
  have keyed: "oldApps = map (\<lambda>a. (nameOf h a, a)) oes" "newApps = map (\<lambda>a. (nameOf h a, a)) nes"
    using appsMap_distinct [OF r(1) assms(4,6)] appsMap_distinct [OF r(2) assms(5,7)]
    by simp_all
  have lists: "g 2 = missingFrom h oes nes" "g 3 = missingFrom h nes oes"
    "changedIn h oldApps newApps = versionChanges h oes nes"
    using r(5,6) unfolding keyed by (simp_all add: onlyIn_keyed changedIn_keyed [OF assms(6)])
  have added: "reportList h' d [''applications'', ''added''] = Some (missingFrom h oes nes)"
    unfolding r(3,4) using reportList_applications [of "''added''" 2 h g] lists(1) by simp
  have removed: "reportList h' d [''applications'', ''removed''] = Some (missingFrom h nes oes)"
    unfolding r(3,4) using reportList_applications [of "''removed''" 3 h g] lists(2) by simp
  have updated: "reportList h' d [''applications'', ''updated''] = Some (g 4)"
    unfolding r(3,4) using reportList_applications [of "''updated''" 4 h g] by simp
  have cells: "map (cellAt h') (g 4) = map (\<lambda>u. Some (updatedCell u)) (versionChanges h oes nes)"
    unfolding r(4,7)
    using cellAt_updated [of h g "map updatedCell (changedIn h oldApps newApps)" V] lists(3)
    by (simp add: comp_def)
  have nowhere: "a \<notin> set (missingFrom h oes nes) \<and> b \<notin> set (missingFrom h nes oes)
        \<and> nameOf h a \<notin> fst ` set (versionChanges h oes nes)"
    if ab: "a \<in> set nes" "b \<in> set oes" "nameOf h b = nameOf h a" "versionOf h b = versionOf h a"
    for a b
  proof -
    have old: "c = b" if "c \<in> set oes" "nameOf h c = nameOf h a" for c
      using distinct_key_unique [OF assms(6) that(1) ab(2)] that(2) ab(3) by simp
    have new: "c = a" if "c \<in> set nes" "nameOf h c = nameOf h a" for c
      using distinct_key_unique [OF assms(7) that(1) ab(1)] that(2) by simp
    have "nameOf h a \<in> nameOf h ` set oes" "nameOf h b \<in> nameOf h ` set nes"
      using ab(1,2,3) by (metis imageI)+
    then have 1: "a \<notin> set (missingFrom h oes nes)" and 2: "b \<notin> set (missingFrom h nes oes)"
      by (simp_all add: missingFrom_def)
    have 3: "nameOf h a \<notin> fst ` set (versionChanges h oes nes)"
    proof
      assume "nameOf h a \<in> fst ` set (versionChanges h oes nes)"
      then obtain c e where ce: "c \<in> set nes" "e \<in> set oes" "nameOf h e = nameOf h c"
        "versionOf h e \<noteq> versionOf h c" "nameOf h c = nameOf h a"
        by (auto simp: versionChanges_def)
      then have "c = a" "e = b" using old new by auto
      then show False using ce(4) ab(4) by simp
    qed
    show ?thesis using 1 2 3 by simp
  qed
  show ?thesis
    using added removed updated cells nowhere by (intro conjI exI [of _ "g 4"] ballI impI) auto
qed

theorem diffSetups_applications_witness:
  "closed (twoDocs []) \<and> okVal (twoDocs []) (Ref 0) \<and> okVal (twoDocs []) (Ref 12)
   \<and> appEntries (twoDocs []) (Ref 0) = Some [Ref 3, Ref 4, Ref 5]
   \<and> appEntries (twoDocs []) (Ref 12) = Some [Ref 15, Ref 16, Ref 17]
   \<and> snd (diffSetups (twoDocs []) (Ref 0) (Ref 12)) = Some (Ref 24)
   \<and> reportList (fst (diffSetups (twoDocs []) (Ref 0) (Ref 12))) (Ref 24)
        [''applications'', ''added''] = Some [Ref 17]
   \<and> reportList (fst (diffSetups (twoDocs []) (Ref 0) (Ref 12))) (Ref 24)
        [''applications'', ''removed''] = Some [Ref 5]
   \<and> versionChanges (twoDocs []) [Ref 3, Ref 4, Ref 5] [Ref 15, Ref 16, Ref 17] =
        [(Str ''Xcode.app'', Str ''14.0'', Str ''15.0'')]"
proof -
  have 1: "closed (twoDocs [])" by code_simp
  have 2: "okVal (twoDocs []) (Ref 0)" "okVal (twoDocs []) (Ref 12)" by code_simp+
  have 3: "appEntries (twoDocs []) (Ref 0) = Some [Ref 3, Ref 4, Ref 5]"
    "appEntries (twoDocs []) (Ref 12) = Some [Ref 15, Ref 16, Ref 17]" by code_simp+
  have 4: "distinct (map (nameOf (twoDocs [])) [Ref 3, Ref 4, Ref 5])"
    "distinct (map (nameOf (twoDocs [])) [Ref 15, Ref 16, Ref 17])" by code_simp+
  have 5: "snd (diffSetups (twoDocs []) (Ref 0) (Ref 12)) = Some (Ref 24)" by code_simp
  then have 6: "diffSetups (twoDocs []) (Ref 0) (Ref 12) =
      (fst (diffSetups (twoDocs []) (Ref 0) (Ref 12)), Some (Ref 24))"
    by (simp add: prod_eq_iff)
  have 7: "missingFrom (twoDocs []) [Ref 3, Ref 4, Ref 5] [Ref 15, Ref 16, Ref 17] = [Ref 17]"
    "missingFrom (twoDocs []) [Ref 15, Ref 16, Ref 17] [Ref 3, Ref 4, Ref 5] = [Ref 5]"
    "versionChanges (twoDocs []) [Ref 3, Ref 4, Ref 5] [Ref 15, Ref 16, Ref 17] =
        [(Str ''Xcode.app'', Str ''14.0'', Str ''15.0'')]" by code_simp+
  show ?thesis
    using 1 2 3 5 7 diffSetups_applications [OF 1 2 3 4 6] by simp
qed

text \<open>
  Claim C7. For two documents \<open>a\<close> and \<open>b\<close> of a closed store, when \<open>diffSetups a b\<close>
  returns and, on the store it leaves, \<open>diffSetups b a\<close> returns, the names of the entries
  added by the first call are the names of the entries removed by the second, and the names
  removed by the first are the names added by the second.
\<close>

theorem diffSetups_symmetry:
  assumes "closed h" and "okVal h a" and "okVal h b"
    and "diffSetups h a b = (h1, Some d1)" and "diffSetups h1 b a = (h2, Some d2)"
  shows "\<exists>added removed added' removed'.
       reportList h1 d1 [''applications'', ''added''] = Some added
     \<and> reportList h1 d1 [''applications'', ''removed''] = Some removed
     \<and> reportList h2 d2 [''applications'', ''added''] = Some added'
     \<and> reportList h2 d2 [''applications'', ''removed''] = Some removed'
     \<and> nameOf h1 ` set added = nameOf h2 ` set removed'
     \<and> nameOf h1 ` set removed = nameOf h2 ` set added'"
proof -
  obtain ma mb g V where r1:
    "appsMap h a = Some ma" "appsMap h b = Some mb" "d1 = Ref (length h)"
    "h1 = h @ reportCells (length h) g @ map updatedCell (changedIn h ma mb) @ V"
    "g 2 = onlyIn mb ma" "g 3 = onlyIn ma mb"
    using diffSetups_lookups [OF assms(1-3), of "[]" h1 d1] assms(4) by auto
  obtain X where X: "h1 = h @ X"
    using r1(4) by blast
  obtain g' V' where r2: "d2 = Ref (length h1)"
    "h2 = h1 @ reportCells (length h1) g' @ map updatedCell (changedIn h mb ma) @ V'"
    "g' 2 = onlyIn ma mb" "g' 3 = onlyIn mb ma"
    using diffSetups_lookups [OF assms(1,3,2), of X h2 d2] assms(5) r1(1,2) unfolding X
    by auto
  have l1: "reportList h1 d1 [''applications'', ''added''] = Some (onlyIn mb ma)"
    "reportList h1 d1 [''applications'', ''removed''] = Some (onlyIn ma mb)"
    unfolding r1(3,4)
    using reportList_applications [of "''added''" 2 h g]
      reportList_applications [of "''removed''" 3 h g] r1(5,6) by simp_all
  have l2: "reportList h2 d2 [''applications'', ''added''] = Some (onlyIn ma mb)"
    "reportList h2 d2 [''applications'', ''removed''] = Some (onlyIn mb ma)"
    unfolding r2(1,2)
    using reportList_applications [of "''added''" 2 h1 g']
      reportList_applications [of "''removed''" 3 h1 g'] r2(3,4) by simp_all
  obtain Y where Y: "h2 = h @ Y"
    using r2(2) X by simp
  have n: "nameOf h1 ` set (onlyIn m m') = nameOf h2 ` set (onlyIn m m')"
    if "appsMap h v = Some m" for v m m'
    unfolding X Y using onlyIn_entries [OF assms(1) that, of m']
    by (simp add: nameOf_image_prefix)
  show ?thesis
    using l1 l2 n [OF r1(1)] n [OF r1(2)] by blast
qed

theorem diffSetups_symmetry_witness:
  "closed (twoDocs []) \<and> okVal (twoDocs []) (Ref 0) \<and> okVal (twoDocs []) (Ref 12)
   \<and> snd (diffSetups (twoDocs []) (Ref 0) (Ref 12)) = Some (Ref 24)
   \<and> snd (diffSetups (fst (diffSetups (twoDocs []) (Ref 0) (Ref 12))) (Ref 12) (Ref 0))
       = Some (Ref 59)
   \<and> (\<exists>added removed added' removed'.
         reportList (fst (diffSetups (twoDocs []) (Ref 0) (Ref 12))) (Ref 24)
           [''applications'', ''added''] = Some added
       \<and> reportList (fst (diffSetups (twoDocs []) (Ref 0) (Ref 12))) (Ref 24)
           [''applications'', ''removed''] = Some removed
       \<and> reportList (fst (diffSetups (fst (diffSetups (twoDocs []) (Ref 0) (Ref 12)))
                            (Ref 12) (Ref 0))) (Ref 59)
           [''applications'', ''added''] = Some added'
       \<and> reportList (fst (diffSetups (fst (diffSetups (twoDocs []) (Ref 0) (Ref 12)))
                            (Ref 12) (Ref 0))) (Ref 59)
           [''applications'', ''removed''] = Some removed'
       \<and> nameOf (fst (diffSetups (twoDocs []) (Ref 0) (Ref 12))) ` set added =
           nameOf (fst (diffSetups (fst (diffSetups (twoDocs []) (Ref 0) (Ref 12)))
                          (Ref 12) (Ref 0))) ` set removed'
       \<and> nameOf (fst (diffSetups (twoDocs []) (Ref 0) (Ref 12))) ` set removed =
           nameOf (fst (diffSetups (fst (diffSetups (twoDocs []) (Ref 0) (Ref 12)))
                          (Ref 12) (Ref 0))) ` set added')"
proof -
  let ?h1 = "fst (diffSetups (twoDocs []) (Ref 0) (Ref 12))"
  let ?h2 = "fst (diffSetups ?h1 (Ref 12) (Ref 0))"
  have 1: "closed (twoDocs [])" by code_simp
  have 2: "okVal (twoDocs []) (Ref 0)" and 3: "okVal (twoDocs []) (Ref 12)" by code_simp+
  have 4: "snd (diffSetups (twoDocs []) (Ref 0) (Ref 12)) = Some (Ref 24)" by code_simp
  have 5: "snd (diffSetups ?h1 (Ref 12) (Ref 0)) = Some (Ref 59)" by code_simp
  have 6: "diffSetups (twoDocs []) (Ref 0) (Ref 12) = (?h1, Some (Ref 24))"
    using 4 by (simp add: prod_eq_iff)
  have 7: "diffSetups ?h1 (Ref 12) (Ref 0) = (?h2, Some (Ref 59))"
    using 5 by (simp add: prod_eq_iff)
  show ?thesis
    using 1 2 3 4 5 diffSetups_symmetry [OF 1 2 3 6 7] by (intro conjI) assumption+
qed

end
